theory Spec2Isabelle
  imports Complex_Main "HOL-Library.AList" "HOL-Library.Log_Nat"
begin

section \<open>Feedback attachments (the Feedback component, src/unnamed/part_002)\<close>

text \<open>
  A browser \<^verbatim>\<open>File\<close> as far as the component reads it: its name, its size in bytes
  and its declared content type. (The fields are \<^verbatim>\<open>name\<close>, \<^verbatim>\<open>size\<close> and \<^verbatim>\<open>type\<close> in
  the source; they are prefixed here because \<open>size\<close> is a constant of HOL.)
\<close>

record File =
  file_name :: string
  file_size :: nat
  file_type :: string

text \<open>A toast notification: what the \<^verbatim>\<open>toast({...})\<close> calls of the source pass.\<close>

record Toast =
  title :: string
  description :: string
  variant :: string

definition MAX_FILE_SIZE :: nat where
  "MAX_FILE_SIZE = 5 * 1024 * 1024"

definition ACCEPTED_IMAGE_TYPES :: "string list" where
  "ACCEPTED_IMAGE_TYPES = [''image/jpeg'', ''image/jpg'', ''image/png'', ''image/webp'']"

text \<open>
  \<^verbatim>\<open>validateFile\<close>: the size test comes first, then the type test; each rejection
  shows its own toast. The toasts shown so far are threaded through.
\<close>

definition validateFile :: "File \<Rightarrow> Toast list \<Rightarrow> bool \<times> Toast list" where
  "validateFile file ts =
     (if file_size file > MAX_FILE_SIZE then
        (False, ts @ [\<lparr>title = ''File too large'',
                        description = file_name file @ '' is larger than 5MB'',
                        variant = ''destructive''\<rparr>])
      else if file_type file \<notin> set ACCEPTED_IMAGE_TYPES then
        (False, ts @ [\<lparr>title = ''Invalid file type'',
                        description = file_name file @ '' is not a supported image type'',
                        variant = ''destructive''\<rparr>])
      else (True, ts))"

text \<open>Whether \<^verbatim>\<open>validateFile\<close> returns true (the toasts do not matter to that).\<close>

definition accepted :: "File \<Rightarrow> bool" where
  "accepted file = fst (validateFile file [])"

text \<open>Decimal digits, for the strings the model has to build.\<close>

definition digit :: "nat \<Rightarrow> char" where
  "digit n = ''0123456789'' ! (n mod 10)"

fun showNat :: "nat \<Rightarrow> string" where
  "showNat n = (if n < 10 then [digit n] else showNat (n div 10) @ [digit n])"

declare showNat.simps [simp del]

text \<open>
  \<^verbatim>\<open>URL.createObjectURL\<close> hands out a fresh blob URL at every call; the model numbers
  them with a counter kept in the state.
\<close>

definition createObjectURL :: "nat \<Rightarrow> string" where
  "createObjectURL k = ''blob:'' @ showNat k"

text \<open>
  The component's state: the two \<^verbatim>\<open>useState\<close> lists, the flags, the toasts shown and
  the number of object URLs created so far.
\<close>

record FeedbackState =
  selectedFiles :: "File list"
  previewUrls :: "string list"
  isSubmitting :: bool
  showSuccess :: bool
  toasts :: "Toast list"
  objectUrls :: nat

definition initialFeedbackState :: FeedbackState where
  "initialFeedbackState =
     \<lparr>selectedFiles = [], previewUrls = [], isSubmitting = False, showSuccess = False,
      toasts = [], objectUrls = 0\<rparr>"

definition tooManyFiles :: Toast where
  "tooManyFiles =
     \<lparr>title = ''Too many files'', description = ''Maximum of 3 files allowed'',
      variant = ''destructive''\<rparr>"

text \<open>
  The \<^verbatim>\<open>forEach\<close> of \<^verbatim>\<open>handleFileChange\<close>. \<open>n\<close> is \<^verbatim>\<open>selectedFiles.length\<close> as the handler
  sees it; the accumulator holds \<^verbatim>\<open>newFiles\<close>, \<^verbatim>\<open>newUrls\<close>, the toasts and the URL counter.
  A file is validated first; a valid file is dropped with the "Too many files" toast when
  three are already selected or collected.
\<close>

fun collectFiles ::
  "nat \<Rightarrow> File list \<Rightarrow> File list \<times> string list \<times> Toast list \<times> nat
     \<Rightarrow> File list \<times> string list \<times> Toast list \<times> nat" where
  "collectFiles n [] acc = acc"
| "collectFiles n (file # rest) (newFiles, newUrls, ts, k) =
     (let (ok, ts') = validateFile file ts in
      if ok then
        (if n + length newFiles \<ge> 3 then
           collectFiles n rest (newFiles, newUrls, ts' @ [tooManyFiles], k)
         else
           collectFiles n rest (newFiles @ [file], newUrls @ [createObjectURL k], ts', Suc k))
      else collectFiles n rest (newFiles, newUrls, ts', k))"

text \<open>
  \<^verbatim>\<open>handleFileChange\<close>: \<open>None\<close> is \<^verbatim>\<open>event.target.files\<close> being null. The two
  functional updates append to the lists the handler was rendered with.
\<close>

definition handleFileChange :: "File list option \<Rightarrow> FeedbackState \<Rightarrow> FeedbackState" where
  "handleFileChange files s =
     (case files of
        None \<Rightarrow> s
      | Some fs \<Rightarrow>
          (let (newFiles, newUrls, ts, k) =
                 collectFiles (length (selectedFiles s)) fs ([], [], toasts s, objectUrls s)
           in s\<lparr>selectedFiles := selectedFiles s @ newFiles,
                 previewUrls := previewUrls s @ newUrls,
                 toasts := ts,
                 objectUrls := k\<rparr>))"

text \<open>\<^verbatim>\<open>removeFile\<close>: both lists lose the element at \<open>index\<close> (none when out of range).\<close>

definition removeAt :: "nat \<Rightarrow> 'a list \<Rightarrow> 'a list" where
  "removeAt i xs = take i xs @ drop (Suc i) xs"

definition removeFile :: "nat \<Rightarrow> FeedbackState \<Rightarrow> FeedbackState" where
  "removeFile index s =
     s\<lparr>selectedFiles := removeAt index (selectedFiles s),
       previewUrls := removeAt index (previewUrls s)\<rparr>"

subsection \<open>Submission\<close>

record User =
  uid :: string
  user_email :: "string option"

record FeedbackDoc =
  doc_userId :: string
  doc_userEmail :: "string option"
  doc_feedback :: string
  doc_attachments :: "string list"
  doc_createdAt :: int

text \<open>
  What the two awaited calls of one upload can do: \<^verbatim>\<open>uploadBytes\<close> rejects, or it
  stores the object and \<^verbatim>\<open>getDownloadURL\<close> rejects, or both resolve and give the URL.
\<close>

datatype upload_outcome = UploadRejected | UrlRejected | Stored string

text \<open>
  The backend as the submission meets it: what each upload does (by position in the
  submission and file), whether \<^verbatim>\<open>addDoc\<close> resolves, and the clock.
\<close>

record Env =
  upload :: "nat \<Rightarrow> File \<Rightarrow> upload_outcome"
  addDocOk :: bool
  now :: int

text \<open>
  The backend's contents: the uploads attempted (owner and file, in call order), the
  objects stored, and the feedback documents.
\<close>

record Backend =
  attempted :: "(string \<times> File) list"
  objects :: "(string \<times> File) list"
  feedback :: "FeedbackDoc list"

definition uploadFailed :: "File \<Rightarrow> Toast" where
  "uploadFailed file =
     \<lparr>title = ''Upload Failed'', description = ''Failed to upload '' @ file_name file,
      variant = ''destructive''\<rparr>"

text \<open>
  The \<^verbatim>\<open>for ... of selectedFiles\<close> loop with its inner \<^verbatim>\<open>try/catch\<close>: \<open>i\<close> counts the
  uploads, the accumulator holds \<^verbatim>\<open>attachmentUrls\<close>, the toasts and the backend.
\<close>

fun uploadAll ::
  "Env \<Rightarrow> User \<Rightarrow> nat \<Rightarrow> File list \<Rightarrow> string list \<times> Toast list \<times> Backend
     \<Rightarrow> string list \<times> Toast list \<times> Backend" where
  "uploadAll env user i [] acc = acc"
| "uploadAll env user i (file # rest) (attachmentUrls, ts, b) =
     (let b1 = b\<lparr>attempted := attempted b @ [(uid user, file)]\<rparr> in
      case upload env i file of
        UploadRejected \<Rightarrow>
          uploadAll env user (Suc i) rest (attachmentUrls, ts @ [uploadFailed file], b1)
      | UrlRejected \<Rightarrow>
          uploadAll env user (Suc i) rest
            (attachmentUrls, ts @ [uploadFailed file],
             b1\<lparr>objects := objects b1 @ [(uid user, file)]\<rparr>)
      | Stored url \<Rightarrow>
          uploadAll env user (Suc i) rest
            (attachmentUrls @ [url], ts,
             b1\<lparr>objects := objects b1 @ [(uid user, file)]\<rparr>))"

text \<open>
  The download URLs of the uploads that resolve, in the order of the files: what the
  claim about partial success compares \<^verbatim>\<open>attachmentUrls\<close> with. \<open>i\<close> is the position of
  the first file.
\<close>

definition succeededUrls :: "Env \<Rightarrow> nat \<Rightarrow> File list \<Rightarrow> string list" where
  "succeededUrls env i files =
     List.map_filter
       (\<lambda>(j, file). case upload env j file of Stored url \<Rightarrow> Some url | _ \<Rightarrow> None)
       (List.enumerate i files)"

definition feedbackSubmitted :: Toast where
  "feedbackSubmitted =
     \<lparr>title = ''Feedback Submitted'',
      description = ''Thank you for helping us improve the app!'', variant = ''''\<rparr>"

definition submitError :: Toast where
  "submitError =
     \<lparr>title = ''Error'', description = ''Failed to submit feedback. Please try again.'',
      variant = ''destructive''\<rparr>"

text \<open>
  \<^verbatim>\<open>onSubmit\<close> of the feedback form, for the validated text \<open>fb\<close>. Without a signed-in
  user it returns at once. Otherwise the uploads run, then \<^verbatim>\<open>addDoc\<close>; when that
  rejects, the outer \<^verbatim>\<open>catch\<close> shows the error toast and the selection is kept.
\<close>

definition onSubmit ::
  "Env \<Rightarrow> User option \<Rightarrow> string \<Rightarrow> FeedbackState \<times> Backend \<Rightarrow> FeedbackState \<times> Backend" where
  "onSubmit env currentUser fb sb =
     (case currentUser of
        None \<Rightarrow> sb
      | Some user \<Rightarrow>
          (let (s, b) = sb;
               (attachmentUrls, ts, b1) = uploadAll env user 0 (selectedFiles s) ([], toasts s, b)
           in if addDocOk env then
                (s\<lparr>selectedFiles := [], previewUrls := [], isSubmitting := False,
                   showSuccess := True, toasts := ts @ [feedbackSubmitted]\<rparr>,
                 b1\<lparr>feedback := feedback b1 @
                    [\<lparr>doc_userId = uid user, doc_userEmail = user_email user,
                      doc_feedback = fb, doc_attachments = attachmentUrls,
                      doc_createdAt = now env\<rparr>]\<rparr>)
              else
                (s\<lparr>isSubmitting := False, toasts := ts @ [submitError]\<rparr>, b1)))"

text \<open>The states of the selection that the component can be in.\<close>

inductive reachable :: "FeedbackState \<Rightarrow> bool" where
  initial: "reachable initialFeedbackState"
| change: "reachable s \<Longrightarrow> reachable (handleFileChange files s)"
| remove: "reachable s \<Longrightarrow> reachable (removeFile index s)"
| submit: "reachable s \<Longrightarrow> reachable (fst (onSubmit env currentUser fb (s, b)))"

text \<open>The invariant of the selection: at most three files, one preview URL for each, all
  of them valid.\<close>

definition selection_ok :: "FeedbackState \<Rightarrow> bool" where
  "selection_ok s \<longleftrightarrow>
     length (selectedFiles s) \<le> 3 \<and> length (previewUrls s) = length (selectedFiles s)
     \<and> list_all accepted (selectedFiles s)"

subsection \<open>The storage rules (src/unnamed/part_000)\<close>

text \<open>
  A request as the rules read it: the authenticated uid if any, and the resource's size
  and content type. \<^verbatim>\<open>matches('image/.*')\<close> matches the whole string, so it asks for
  the prefix \<^verbatim>\<open>image/\<close>.
\<close>

record Request =
  auth_uid :: "string option"
  resource_size :: nat
  resource_contentType :: string

definition matches_image :: "string \<Rightarrow> bool" where
  "matches_image s = (take 6 s = ''image/'')"

definition feedback_attachments_create :: "string \<Rightarrow> Request \<Rightarrow> bool" where
  "feedback_attachments_create userId request =
     (auth_uid request \<noteq> None
      \<and> auth_uid request = Some userId
      \<and> resource_size request < 5 * 1024 * 1024
      \<and> matches_image (resource_contentType request))"

text \<open>The request that \<^verbatim>\<open>uploadBytes\<close> makes for a file, as a signed-in user.\<close>

definition uploadRequest :: "User \<Rightarrow> File \<Rightarrow> Request" where
  "uploadRequest user file =
     \<lparr>auth_uid = Some (uid user), resource_size = file_size file,
      resource_contentType = file_type file\<rparr>"

section \<open>The pain chart (src/src/components/pain/PainChart.tsx)\<close>

subsection \<open>Dates\<close>

text \<open>
  A JavaScript \<^verbatim>\<open>Date\<close>: an instant in milliseconds since the epoch, or the invalid date
  (time value NaN). The runtime's time zone is taken to be UTC.
\<close>

datatype jsdate = InvalidDate | Instant int

text \<open>
  \<^verbatim>\<open>a <= b\<close> and \<^verbatim>\<open>a >= b\<close> on dates compare the time values as numbers; a comparison
  with NaN is false.
\<close>

definition date_le :: "jsdate \<Rightarrow> jsdate \<Rightarrow> bool" where
  "date_le a b = (case (a, b) of (Instant x, Instant y) \<Rightarrow> x \<le> y | _ \<Rightarrow> False)"

definition date_ge :: "jsdate \<Rightarrow> jsdate \<Rightarrow> bool" where
  "date_ge a b = (case (a, b) of (Instant x, Instant y) \<Rightarrow> x \<ge> y | _ \<Rightarrow> False)"

definition msPerDay :: int where
  "msPerDay = 86400000"

text \<open>
  The calendar day of an instant (year, month 1..12, day of the month), in the proleptic
  Gregorian calendar: the day number since the epoch, shifted to count from 0000-03-01
  and cut into 400-year eras.
\<close>

definition civil :: "int \<Rightarrow> int \<times> int \<times> int" where
  "civil t =
     (let z = t div msPerDay + 719468;
          era = z div 146097;
          doe = z mod 146097;
          yoe = (doe - doe div 1460 + doe div 36524 - doe div 146096) div 365;
          doy = doe - (365 * yoe + yoe div 4 - yoe div 100);
          mp = (5 * doy + 2) div 153;
          d = doy - (153 * mp + 2) div 5 + 1;
          m = (if mp < 10 then mp + 3 else mp - 9)
      in (yoe + era * 400 + (if m \<le> 2 then 1 else 0), m, d))"

text \<open>\<^verbatim>\<open>addLeadingZeros\<close> of date-fns.\<close>

definition addLeadingZeros :: "nat \<Rightarrow> nat \<Rightarrow> string" where
  "addLeadingZeros n targetLength =
     replicate (targetLength - length (showNat n)) CHR ''0'' @ showNat n"

definition months :: "string list" where
  "months = [''Jan'', ''Feb'', ''Mar'', ''Apr'', ''May'', ''Jun'',
             ''Jul'', ''Aug'', ''Sep'', ''Oct'', ''Nov'', ''Dec'']"

text \<open>\<^verbatim>\<open>format\<close> of date-fns throws a RangeError on the invalid date.\<close>

datatype jserror = RangeError

text \<open>
  \<^verbatim>\<open>format(date, 'yyyy-MM-dd')\<close>. The token \<^verbatim>\<open>yyyy\<close> prints the year of the era: a year
  \<open>y \<le> 0\<close> prints as \<open>1 - y\<close>.
\<close>

definition dateStr :: "int \<Rightarrow> string" where
  "dateStr t =
     (let (y, m, d) = civil t in
      addLeadingZeros (nat (if y > 0 then y else 1 - y)) 4 @ ''-''
        @ addLeadingZeros (nat m) 2 @ ''-'' @ addLeadingZeros (nat d) 2)"

definition format_yyyy_MM_dd :: "jsdate \<Rightarrow> jserror + string" where
  "format_yyyy_MM_dd date =
     (case date of InvalidDate \<Rightarrow> Inl RangeError | Instant t \<Rightarrow> Inr (dateStr t))"

text \<open>\<^verbatim>\<open>format(date, 'MMM d')\<close>: the month's abbreviation and the day of the month.\<close>

definition dayLabel :: "int \<Rightarrow> string" where
  "dayLabel t = (let (y, m, d) = civil t in months ! nat (m - 1) @ '' '' @ showNat (nat d))"

definition format_MMM_d :: "jsdate \<Rightarrow> jserror + string" where
  "format_MMM_d date =
     (case date of InvalidDate \<Rightarrow> Inl RangeError | Instant t \<Rightarrow> Inr (dayLabel t))"

text \<open>
  \<^verbatim>\<open>new Date(label).getTime()\<close> for a label of the shape \<^verbatim>\<open>MMM d\<close>, as V8's legacy
  parser reads it: the month by its name, the day from the number, and, no year being
  written, the year 2001; a day number outside 1..31 gives NaN (\<open>None\<close>); a day past the
  month's end runs into the next month. Other strings are not labels of the chart and
  read as NaN here. 11323 is the day number of 2001-01-01.
\<close>

fun indexOf :: "'a \<Rightarrow> 'a list \<Rightarrow> nat option" where
  "indexOf x [] = None"
| "indexOf x (y # ys) = (if x = y then Some 0 else map_option Suc (indexOf x ys))"

fun parseDigits :: "nat \<Rightarrow> string \<Rightarrow> nat option" where
  "parseDigits acc [] = Some acc"
| "parseDigits acc (c # cs) =
     (case indexOf c ''0123456789'' of
        None \<Rightarrow> None
      | Some v \<Rightarrow> parseDigits (10 * acc + v) cs)"

definition daysBeforeMonth :: "int list" where
  "daysBeforeMonth = [0, 31, 59, 90, 120, 151, 181, 212, 243, 273, 304, 334]"

definition newDate_getTime :: "string \<Rightarrow> int option" where
  "newDate_getTime s =
     (case indexOf (take 3 s) months of
        None \<Rightarrow> None
      | Some m \<Rightarrow>
          if take 1 (drop 3 s) \<noteq> '' '' \<or> drop 4 s = [] then None
          else (case parseDigits 0 (drop 4 s) of
                  None \<Rightarrow> None
                | Some d \<Rightarrow>
                    if 1 \<le> d \<and> d \<le> 31
                    then Some ((11323 + daysBeforeMonth ! m + int d - 1) * msPerDay)
                    else None))"

subsection \<open>Numbers\<close>

text \<open>
  A finite JavaScript number is a binary64 value, here the rational it denotes.
  \<open>ilog2 x\<close> is the binary exponent of a positive \<open>x\<close> (\<open>2 ^ e \<le> x < 2 ^ (e + 1)\<close>),
  \<open>fl64 x\<close> is \<open>x\<close> rounded to the nearest number with a 53-bit significand, ties to
  the even significand: what an arithmetic operation or the reading of a decimal numeral
  returns for the exact result \<open>x\<close> (overflow and subnormal numbers are left out; the
  chart's quotients are far from both).
\<close>

definition ilog2 :: "rat \<Rightarrow> int" where
  "ilog2 x =
     (let (p, q) = quotient_of x; e = bitlen p - bitlen q
      in if 2 powi e \<le> x then e else e - 1)"

definition roundHalfEven :: "rat \<Rightarrow> int" where
  "roundHalfEven y =
     (let f = \<lfloor>y\<rfloor>; r = y - of_int f
      in if r < 1 / 2 then f else if r > 1 / 2 then f + 1 else if even f then f else f + 1)"

definition fl64 :: "rat \<Rightarrow> rat" where
  "fl64 x =
     (if x = 0 then 0
      else (let u = 2 powi (ilog2 \<bar>x\<bar> - 52)
            in sgn x * of_int (roundHalfEven (\<bar>x\<bar> / u)) * u))"

text \<open>
  \<^verbatim>\<open>x.toFixed(1)\<close> for \<open>\<bar>x\<bar> < 10^21\<close>, as the number of tenths it prints: the integer
  \<open>n\<close> with \<open>n / 10\<close> nearest to \<open>\<bar>x\<bar>\<close>, the larger one of two, with the sign of \<open>x\<close>.
\<close>

definition toFixed1 :: "rat \<Rightarrow> int" where
  "toFixed1 x = (if x < 0 then - 1 else 1) * \<lfloor>10 * \<bar>x\<bar> + 1 / 2\<rfloor>"

text \<open>
  \<^verbatim>\<open>Number(x.toFixed(1))\<close>: the binary64 value of the decimal printed. From \<open>10^21\<close> on,
  \<^verbatim>\<open>toFixed\<close> prints the number itself.
\<close>

definition Number_toFixed1 :: "rat \<Rightarrow> rat" where
  "Number_toFixed1 x =
     (if \<bar>x\<bar> \<ge> 10 ^ 21 then x else fl64 (of_int (toFixed1 x) / 10))"

subsection \<open>The aggregation\<close>

text \<open>
  \<^verbatim>\<open>PainEntry\<close> of \<^verbatim>\<open>lib/types.ts\<close>. The pain level is a number in the source; the model
  takes the integer levels that the entry form's slider writes, whose sums are exact in
  binary64 up to \<open>2^53\<close>. (\<^verbatim>\<open>id\<close> is a constant of HOL and \<^verbatim>\<open>notes\<close> a keyword, hence \<open>entry_id\<close> and
  \<open>entry_notes\<close>.)
\<close>

record PainEntry =
  entry_id :: string
  userId :: string
  painLevel :: int
  date :: jsdate
  entry_notes :: string
  createdAt :: jsdate

text \<open>The \<^verbatim>\<open>dateRange\<close> prop (\<^verbatim>\<open>from\<close> and \<^verbatim>\<open>to\<close> in the source).\<close>

record DateRange =
  range_from :: jsdate
  range_to :: jsdate

definition filteredEntries :: "PainEntry list \<Rightarrow> DateRange \<Rightarrow> PainEntry list" where
  "filteredEntries entries dateRange =
     filter (\<lambda>entry. date_ge (date entry) (range_from dateRange)
                     \<and> date_le (date entry) (range_to dateRange)) entries"

text \<open>One value of the \<^verbatim>\<open>dailyData\<close> object.\<close>

record Bucket =
  bucket_date :: jsdate
  totalPain :: int
  count :: nat

text \<open>
  The \<^verbatim>\<open>reduce\<close>. The accumulator object is an association list in insertion order,
  which is the order \<^verbatim>\<open>Object.values\<close> lists string keys in. An absent key appends a
  bucket; a present key has its bucket updated in place.
\<close>

fun dailyData :: "(string \<times> Bucket) list \<Rightarrow> PainEntry list \<Rightarrow> jserror + (string \<times> Bucket) list" where
  "dailyData acc [] = Inr acc"
| "dailyData acc (entry # rest) =
     (case format_yyyy_MM_dd (date entry) of
        Inl err \<Rightarrow> Inl err
      | Inr k \<Rightarrow>
          (case map_of acc k of
             None \<Rightarrow>
               dailyData
                 (acc @ [(k, \<lparr>bucket_date = date entry, totalPain = painLevel entry, count = 1\<rparr>)])
                 rest
           | Some b \<Rightarrow>
               dailyData
                 (AList.update k
                    (b\<lparr>totalPain := totalPain b + painLevel entry, count := count b + 1\<rparr>) acc)
                 rest))"

text \<open>
  The \<^verbatim>\<open>map\<close>: a chart point is the pair of its label and its value. The quotient is the
  binary64 division of two integers.
\<close>

definition chartPoint :: "Bucket \<Rightarrow> jserror + string \<times> rat" where
  "chartPoint b =
     (case format_MMM_d (bucket_date b) of
        Inl err \<Rightarrow> Inl err
      | Inr label \<Rightarrow>
          Inr (label, Number_toFixed1 (fl64 (of_int (totalPain b) / of_nat (count b)))))"

fun chartPoints :: "Bucket list \<Rightarrow> jserror + (string \<times> rat) list" where
  "chartPoints [] = Inr []"
| "chartPoints (b # bs) =
     (case chartPoint b of
        Inl err \<Rightarrow> Inl err
      | Inr p \<Rightarrow> (case chartPoints bs of Inl err \<Rightarrow> Inl err | Inr ps \<Rightarrow> Inr (p # ps)))"

text \<open>
  The comparator of the \<^verbatim>\<open>sort\<close>: the difference of the two parsed times; with a NaN
  among them the difference is NaN, which \<^verbatim>\<open>sort\<close> takes as 0.
\<close>

definition compareByDate :: "string \<times> rat \<Rightarrow> string \<times> rat \<Rightarrow> int" where
  "compareByDate a b =
     (case (newDate_getTime (fst a), newDate_getTime (fst b)) of
        (Some x, Some y) \<Rightarrow> x - y
      | _ \<Rightarrow> 0)"

text \<open>\<^verbatim>\<open>Array.prototype.sort\<close> is stable: an insertion sort from the right.\<close>

fun insertBy :: "('a \<Rightarrow> 'a \<Rightarrow> int) \<Rightarrow> 'a \<Rightarrow> 'a list \<Rightarrow> 'a list" where
  "insertBy cmp x [] = [x]"
| "insertBy cmp x (y # ys) = (if cmp x y \<le> 0 then x # y # ys else y # insertBy cmp x ys)"

definition sortBy :: "('a \<Rightarrow> 'a \<Rightarrow> int) \<Rightarrow> 'a list \<Rightarrow> 'a list" where
  "sortBy cmp xs = foldr (insertBy cmp) xs []"

definition chartData :: "PainEntry list \<Rightarrow> DateRange \<Rightarrow> jserror + (string \<times> rat) list" where
  "chartData entries dateRange =
     (case dailyData [] (filteredEntries entries dateRange) of
        Inl err \<Rightarrow> Inl err
      | Inr daily \<Rightarrow>
          (case chartPoints (map snd daily) of
             Inl err \<Rightarrow> Inl err
           | Inr points \<Rightarrow> Inr (sortBy compareByDate points)))"

subsection \<open>Notions for the statements about the chart\<close>

text \<open>An entry is inside the window when the three dates are valid and its instant lies
  between the bounds, both included.\<close>

definition inWindow :: "DateRange \<Rightarrow> PainEntry \<Rightarrow> bool" where
  "inWindow dateRange entry \<longleftrightarrow>
     (case (range_from dateRange, date entry, range_to dateRange) of
        (Instant f, Instant t, Instant u) \<Rightarrow> f \<le> t \<and> t \<le> u
      | _ \<Rightarrow> False)"

text \<open>The key of an entry's calendar day, the entries of one day, and lists without
  invalid dates.\<close>

definition entryKey :: "PainEntry \<Rightarrow> string" where
  "entryKey entry = (case date entry of Instant t \<Rightarrow> dateStr t | InvalidDate \<Rightarrow> [])"

definition sameDay :: "string \<Rightarrow> PainEntry list \<Rightarrow> PainEntry list" where
  "sameDay k entries = filter (\<lambda>entry. entryKey entry = k) entries"

definition validDates :: "PainEntry list \<Rightarrow> bool" where
  "validDates entries = list_all (\<lambda>entry. date entry \<noteq> InvalidDate) entries"

text \<open>The bucket of a key after a run of the \<^verbatim>\<open>reduce\<close> over \<open>es\<close>, all of that key,
  from the bucket \<open>old\<close> the key had before.\<close>

definition bucketOf :: "Bucket option \<Rightarrow> PainEntry list \<Rightarrow> Bucket option" where
  "bucketOf old es =
     (case old of
        Some b \<Rightarrow>
          Some (b\<lparr>totalPain := totalPain b + sum_list (map painLevel es),
                  count := count b + length es\<rparr>)
      | None \<Rightarrow>
          (case es of
             [] \<Rightarrow> None
           | e # _ \<Rightarrow>
               Some \<lparr>bucket_date = date e, totalPain = sum_list (map painLevel es),
                     count = length es\<rparr>))"

text \<open>
  The calendar day of an entry (year, month, day), and the entries dated in the year 1 or
  later, for which the printed year is the year itself.
\<close>

definition calendarDay :: "PainEntry \<Rightarrow> (int \<times> int \<times> int) option" where
  "calendarDay entry = (case date entry of Instant t \<Rightarrow> Some (civil t) | InvalidDate \<Rightarrow> None)"

definition commonEra :: "PainEntry \<Rightarrow> bool" where
  "commonEra entry = (case date entry of Instant t \<Rightarrow> 0 < fst (civil t) | InvalidDate \<Rightarrow> False)"

text \<open>
  The retained entries of an entry's day, the arithmetic mean of the pain levels of a
  list of entries, and the chart point of a day from its entries in their order: the label of
  the first entry's date, and the value the \<^verbatim>\<open>map\<close> computes from the sum and the count.
\<close>

definition dayEntries :: "PainEntry list \<Rightarrow> DateRange \<Rightarrow> PainEntry \<Rightarrow> PainEntry list" where
  "dayEntries entries dateRange entry = sameDay (entryKey entry) (filteredEntries entries dateRange)"

definition mean :: "PainEntry list \<Rightarrow> rat" where
  "mean es = of_int (sum_list (map painLevel es)) / of_nat (length es)"

definition dayPoint :: "PainEntry list \<Rightarrow> string \<times> rat" where
  "dayPoint es =
     (case es of
        [] \<Rightarrow> ([], 0)
      | e # _ \<Rightarrow>
          (case date e of InvalidDate \<Rightarrow> [] | Instant t \<Rightarrow> dayLabel t,
           Number_toFixed1 (fl64 (of_int (sum_list (map painLevel es)) / of_nat (length es)))))"

section \<open>Form validation\<close>

text \<open>
  A zod schema gives the list of its issues, each under the path of its field; the
  parse succeeds when the list is empty. \<^verbatim>\<open>handleSubmit\<close> of react-hook-form runs the
  resolver and calls the submit handler only when there is no issue; otherwise the
  issues become the form's errors and nothing else happens. \<open>w\<close> is whatever the submit
  handler acts on.
\<close>

definition handleSubmit ::
  "('d \<Rightarrow> string list) \<Rightarrow> ('d \<Rightarrow> 'w \<Rightarrow> 'w) \<Rightarrow> 'd \<Rightarrow> 'w \<Rightarrow> string list \<times> 'w" where
  "handleSubmit resolver onValid data w =
     (let errors = resolver data in if errors = [] then ([], onValid data w) else (errors, w))"

subsection \<open>Registration and settings (AuthForm.tsx, the Settings component)\<close>

text \<open>
  String lengths are counted in the units of the model's strings. The format test of
  \<^verbatim>\<open>z.string().email()\<close> is zod's; it is a parameter here.
\<close>

record RegisterData =
  reg_email :: string
  reg_password :: string
  reg_displayName :: string
  reg_profilePicture :: "File list option"

definition registerSchema :: "(string \<Rightarrow> bool) \<Rightarrow> RegisterData \<Rightarrow> string list" where
  "registerSchema isEmail data =
     (if isEmail (reg_email data) then [] else [''email''])
     @ (if length (reg_password data) < 6 then [''password''] else [])
     @ (if length (reg_displayName data) < 2 then [''displayName''] else [])"

record SettingsData =
  set_displayName :: string
  set_profilePicture :: "File list option"

definition settingsSchema :: "SettingsData \<Rightarrow> string list" where
  "settingsSchema data =
     (if length (set_displayName data) < 2 then [''displayName''] else [])
     @ (if length (set_displayName data) > 50 then [''displayName''] else [])"

subsection \<open>The new-entry form (NewEntryForm.tsx)\<close>

text \<open>A JavaScript number: NaN, an infinity, or a finite value.\<close>

datatype number = NaN | PosInfinity | NegInfinity | Finite rat

text \<open>
  The form's values. \<open>None\<close> for the date is \<^verbatim>\<open>undefined\<close>, which the calendar gives
  when the selected day is clicked again.
\<close>

record EntryData =
  form_painLevel :: number
  form_date :: "jsdate option"
  form_notes :: string

text \<open>
  \<^verbatim>\<open>z.number().min(0).max(10)\<close>: NaN is not a number to zod; \<^verbatim>\<open>min\<close> raises an issue
  below 0 and \<^verbatim>\<open>max\<close> above 10. \<^verbatim>\<open>z.date()\<close> wants a valid date; \<^verbatim>\<open>z.string()\<close> takes any
  string.
\<close>

definition painLevelIssues :: "number \<Rightarrow> string list" where
  "painLevelIssues v =
     (case v of
        NaN \<Rightarrow> [''painLevel'']
      | PosInfinity \<Rightarrow> [''painLevel'']
      | NegInfinity \<Rightarrow> [''painLevel'']
      | Finite x \<Rightarrow>
          (if x < 0 then [''painLevel''] else []) @ (if x > 10 then [''painLevel''] else []))"

definition entrySchema :: "EntryData \<Rightarrow> string list" where
  "entrySchema data =
     painLevelIssues (form_painLevel data)
     @ (case form_date data of
          None \<Rightarrow> [''date'']
        | Some InvalidDate \<Rightarrow> [''date'']
        | Some (Instant t) \<Rightarrow> [])"

text \<open>\<^verbatim>\<open>Number.isInteger\<close>.\<close>

definition isInteger :: "number \<Rightarrow> bool" where
  "isInteger v = (case v of Finite x \<Rightarrow> of_int \<lfloor>x\<rfloor> = x | _ \<Rightarrow> False)"

text \<open>A document of the \<^verbatim>\<open>painEntries\<close> collection as \<^verbatim>\<open>addDoc\<close> receives it.\<close>

record PainEntryDoc =
  pdoc_userId :: string
  pdoc_painLevel :: number
  pdoc_date :: jsdate
  pdoc_notes :: string
  pdoc_createdAt :: int

text \<open>
  The form and the collection it writes to. \<^verbatim>\<open>onSubmit\<close> of the form, for validated
  data (whose date is a valid one): without a signed-in user nothing is written;
  otherwise the document is added (when \<^verbatim>\<open>addDoc\<close> resolves) and the form is reset to
  its defaults, the date to the current time.
\<close>

record EntryForm =
  form_values :: EntryData
  sliderValue :: number
  painEntries :: "PainEntryDoc list"

definition entryDefaults :: "int \<Rightarrow> EntryData" where
  "entryDefaults clock = \<lparr>form_painLevel = Finite 5, form_date = Some (Instant clock), form_notes = ''''\<rparr>"

definition initialEntryForm :: "int \<Rightarrow> EntryForm" where
  "initialEntryForm clock =
     \<lparr>form_values = entryDefaults clock, sliderValue = Finite 5, painEntries = []\<rparr>"

definition onSubmitEntry :: "User option \<Rightarrow> bool \<Rightarrow> int \<Rightarrow> EntryData \<Rightarrow> EntryForm \<Rightarrow> EntryForm" where
  "onSubmitEntry currentUser addOk clock data f =
     (case (currentUser, form_date data) of
        (Some user, Some (Instant t)) \<Rightarrow>
          if addOk then
            \<lparr>form_values = entryDefaults clock, sliderValue = Finite 5,
             painEntries = painEntries f @
               [\<lparr>pdoc_userId = uid user, pdoc_painLevel = form_painLevel data,
                 pdoc_date = Instant t, pdoc_notes = form_notes data,
                 pdoc_createdAt = clock\<rparr>]\<rparr>
          else f
      | _ \<Rightarrow> f)"

text \<open>
  The slider is rendered with \<^verbatim>\<open>min={0} max={10} step={1}\<close>. The component itself
  (\<^verbatim>\<open>components/ui/slider\<close>) is not among the sources; what it reports is taken from
  these props: a position \<open>min + k * step\<close> that is at most \<open>max\<close>. The handler stores
  the position in the slider's state and in the form.
\<close>

definition sliderPosition :: "int \<Rightarrow> int \<Rightarrow> int \<Rightarrow> nat \<Rightarrow> int option" where
  "sliderPosition mn mx step k = (if mn + int k * step \<le> mx then Some (mn + int k * step) else None)"

definition onValueChange :: "nat \<Rightarrow> EntryForm \<Rightarrow> EntryForm" where
  "onValueChange k f =
     (case sliderPosition 0 10 1 k of
        None \<Rightarrow> f
      | Some v \<Rightarrow>
          f\<lparr>sliderValue := Finite (of_int v),
            form_values := (form_values f)\<lparr>form_painLevel := Finite (of_int v)\<rparr>\<rparr>)"

definition onSelectDate :: "jsdate option \<Rightarrow> EntryForm \<Rightarrow> EntryForm" where
  "onSelectDate d f = f\<lparr>form_values := (form_values f)\<lparr>form_date := d\<rparr>\<rparr>"

definition onNotesInput :: "string \<Rightarrow> EntryForm \<Rightarrow> EntryForm" where
  "onNotesInput s f = f\<lparr>form_values := (form_values f)\<lparr>form_notes := s\<rparr>\<rparr>"

text \<open>What a user can bring the form to.\<close>

inductive form_reachable :: "EntryForm \<Rightarrow> bool" where
  form_initial: "form_reachable (initialEntryForm clock)"
| form_slide: "form_reachable f \<Longrightarrow> form_reachable (onValueChange k f)"
| form_date: "form_reachable f \<Longrightarrow> form_reachable (onSelectDate d f)"
| form_notes: "form_reachable f \<Longrightarrow> form_reachable (onNotesInput s f)"
| form_submit:
    "form_reachable f \<Longrightarrow>
     form_reachable
       (snd (handleSubmit entrySchema (onSubmitEntry currentUser addOk clock) (form_values f) f))"

text \<open>A pain level as the data model has it: an integer from 0 to 10.\<close>

definition levelInRange :: "number \<Rightarrow> bool" where
  "levelInRange v = (case v of Finite x \<Rightarrow> of_int \<lfloor>x\<rfloor> = x \<and> 0 \<le> x \<and> x \<le> 10 | _ \<Rightarrow> False)"

text \<open>The invariant of the entry form: the level in the form and the levels written are
  integers from 0 to 10.\<close>

definition form_ok :: "EntryForm \<Rightarrow> bool" where
  "form_ok f \<longleftrightarrow>
     levelInRange (form_painLevel (form_values f))
     \<and> list_all (\<lambda>d. levelInRange (pdoc_painLevel d)) (painEntries f)"

section \<open>Sample data\<close>

text \<open>A PNG of a given name and size; a backend whose second upload is rejected; the
  selection after three screenshots were picked.\<close>

definition png :: "string \<Rightarrow> nat \<Rightarrow> File" where
  "png nm sz = \<lparr>file_name = nm, file_size = sz, file_type = ''image/png''\<rparr>"

definition flakyEnv :: Env where
  "flakyEnv =
     \<lparr>upload = (\<lambda>i file. if i = 1 then UploadRejected else Stored (''https://cdn/'' @ file_name file)),
      addDocOk = True, now = 0\<rparr>"

definition threeSelected :: FeedbackState where
  "threeSelected =
     handleFileChange (Some [png ''a.png'' 10, png ''b.png'' 20, png ''c.png'' 30])
       initialFeedbackState"

text \<open>The entry form after the slider was moved to 7 and the form submitted.\<close>

definition sevenSubmitted :: EntryForm where
  "sevenSubmitted =
     snd (handleSubmit entrySchema (onSubmitEntry (Some \<lparr>uid = ''u1'', user_email = None\<rparr>) True 1000)
            (form_values (onValueChange 7 (initialEntryForm 0)))
            (onValueChange 7 (initialEntryForm 0)))"

text \<open>
  Pain entries for the examples: an entry of a given id, instant and level; the entries
  (2024-01-01, 4), (2024-01-01, 6), (2024-01-02, 8), each at midnight, and the window
  from 2024-01-01 to 2024-01-02.
\<close>

definition entryAt :: "string \<Rightarrow> int \<Rightarrow> int \<Rightarrow> PainEntry" where
  "entryAt i t level =
     \<lparr>entry_id = i, userId = ''u1'', painLevel = level, date = Instant t, entry_notes = [],
      createdAt = Instant t\<rparr>"

definition newYearEntries :: "PainEntry list" where
  "newYearEntries =
     [entryAt ''e1'' 1704067200000 4, entryAt ''e2'' 1704067200000 6,
      entryAt ''e3'' 1704153600000 8]"

definition newYearWindow :: DateRange where
  "newYearWindow = \<lparr>range_from = Instant 1704067200000, range_to = Instant 1704153600000\<rparr>"

text \<open>The window of the first day alone: 2024-01-01 from 00:00:00.000 to 23:59:59.999.\<close>

definition firstDayWindow :: DateRange where
  "firstDayWindow = \<lparr>range_from = Instant 1704067200000, range_to = Instant 1704153599999\<rparr>"

section \<open>Properties of the attachment selection\<close>

lemma validateFile_fst: "fst (validateFile file ts) = accepted file"
  by (simp add: accepted_def validateFile_def)

lemma accepted_iff:
  "accepted file \<longleftrightarrow>
     file_size file \<le> MAX_FILE_SIZE \<and> file_type file \<in> set ACCEPTED_IMAGE_TYPES"
  by (auto simp: accepted_def validateFile_def)

lemma collectFiles_files:
  "fst (collectFiles n fs (nf, nu, ts, k)) = nf @ take (3 - (n + length nf)) (filter accepted fs)"
proof (induction fs arbitrary: nf nu ts k)
  case Nil
  show ?case by simp
next
  case (Cons f fs)
  obtain ok ts' where v: "validateFile f ts = (ok, ts')" by (cases "validateFile f ts")
  then have ok: "ok = accepted f" using validateFile_fst [of f ts] by simp
  show ?case
  proof (cases "accepted f")
    case False
    with v ok Cons.IH show ?thesis by simp
  next
    case True
    show ?thesis
    proof (cases "n + length nf \<ge> 3")
      case True
      with v ok \<open>accepted f\<close> Cons.IH show ?thesis by simp
    next
      case False
      then have "3 - (n + length nf) = Suc (3 - (n + length (nf @ [f])))" by simp
      with v ok \<open>accepted f\<close> False Cons.IH [of "nf @ [f]"] show ?thesis by simp
    qed
  qed
qed

lemma collectFiles_urls:
  "fst (snd (collectFiles n fs (nf, nu, ts, k)))
     = nu @ map createObjectURL
              [k ..< k + length (take (3 - (n + length nf)) (filter accepted fs))]"
proof (induction fs arbitrary: nf nu ts k)
  case Nil
  show ?case by simp
next
  case (Cons f fs)
  obtain ok ts' where v: "validateFile f ts = (ok, ts')" by (cases "validateFile f ts")
  then have ok: "ok = accepted f" using validateFile_fst [of f ts] by simp
  show ?case
  proof (cases "accepted f")
    case False
    with v ok Cons.IH show ?thesis by simp
  next
    case True
    show ?thesis
    proof (cases "n + length nf \<ge> 3")
      case True
      with v ok \<open>accepted f\<close> Cons.IH show ?thesis by simp
    next
      case False
      then have "3 - (n + length nf) = Suc (3 - (n + length (nf @ [f])))" by simp
      with v ok \<open>accepted f\<close> False
        Cons.IH [of "nf @ [f]" "nu @ [createObjectURL k]" ts' "Suc k"]
      show ?thesis by (simp add: upt_conv_Cons del: upt_Suc)
    qed
  qed
qed

lemma handleFileChange_files:
  "selectedFiles (handleFileChange (Some fs) s)
     = selectedFiles s @ take (3 - length (selectedFiles s)) (filter accepted fs)"
  using collectFiles_files [of "length (selectedFiles s)" fs "[]" "[]" "toasts s" "objectUrls s"]
  by (simp add: handleFileChange_def case_prod_beta)

lemma handleFileChange_urls:
  "previewUrls (handleFileChange (Some fs) s)
     = previewUrls s @ map createObjectURL
         [objectUrls s ..< objectUrls s
            + length (take (3 - length (selectedFiles s)) (filter accepted fs))]"
  using collectFiles_urls [of "length (selectedFiles s)" fs "[]" "[]" "toasts s" "objectUrls s"]
  by (simp add: handleFileChange_def case_prod_beta)

lemma handleFileChange_None: "handleFileChange None s = s"
  by (simp add: handleFileChange_def)

lemma selection_ok_handleFileChange:
  assumes "selection_ok s"
  shows "selection_ok (handleFileChange files s)"
proof (cases files)
  case None
  with assms show ?thesis by (simp add: handleFileChange_None)
next
  case (Some fs)
  from assms show ?thesis
    unfolding Some selection_ok_def handleFileChange_files handleFileChange_urls
    by (auto simp: list_all_iff dest: in_set_takeD)
qed

lemma selection_ok_removeFile:
  assumes "selection_ok s"
  shows "selection_ok (removeFile index s)"
  using assms
  by (auto simp: selection_ok_def removeFile_def removeAt_def list_all_iff
           dest: in_set_takeD in_set_dropD)

lemma onSubmit_selection:
  "selectedFiles (fst (onSubmit env cu fb (s, b))) = selectedFiles s
     \<and> previewUrls (fst (onSubmit env cu fb (s, b))) = previewUrls s
   \<or> selectedFiles (fst (onSubmit env cu fb (s, b))) = []
     \<and> previewUrls (fst (onSubmit env cu fb (s, b))) = []"
  by (simp add: onSubmit_def split: option.splits prod.splits)

lemma selection_ok_onSubmit:
  assumes "selection_ok s"
  shows "selection_ok (fst (onSubmit env cu fb (s, b)))"
  using assms onSubmit_selection [of env cu fb s b]
  by (auto simp: selection_ok_def)

lemma reachable_selection_ok: "reachable s \<Longrightarrow> selection_ok s"
proof (induction rule: reachable.induct)
  case initial
  show ?case by (simp add: selection_ok_def initialFeedbackState_def)
next
  case (change s files)
  then show ?case by (simp add: selection_ok_handleFileChange)
next
  case (remove s index)
  then show ?case by (simp add: selection_ok_removeFile)
next
  case (submit s env currentUser fb b)
  then show ?case by (simp add: selection_ok_onSubmit)
qed

subsection \<open>Submission\<close>

lemma uploadAll_urls:
  "fst (uploadAll env user i files (urls, ts, b)) = urls @ succeededUrls env i files"
proof (induction files arbitrary: i urls ts b)
  case Nil
  show ?case by (simp add: succeededUrls_def map_filter_simps)
next
  case (Cons f fs)
  show ?case
    by (cases "upload env i f")
       (simp_all add: Cons.IH Let_def, simp_all add: succeededUrls_def map_filter_simps)
qed

lemma uploadAll_attempted:
  "attempted (snd (snd (uploadAll env user i files (urls, ts, b))))
     = attempted b @ map (Pair (uid user)) files"
proof (induction files arbitrary: i urls ts b)
  case Nil
  show ?case by simp
next
  case (Cons f fs)
  show ?case
    by (cases "upload env i f") (simp_all add: Cons.IH Let_def)
qed

lemma uploadAll_feedback:
  "feedback (snd (snd (uploadAll env user i files (urls, ts, b)))) = feedback b"
proof (induction files arbitrary: i urls ts b)
  case Nil
  show ?case by simp
next
  case (Cons f fs)
  show ?case
    by (cases "upload env i f") (simp_all add: Cons.IH Let_def)
qed

lemma succeededUrls_length: "length (succeededUrls env i files) \<le> length files"
proof -
  have "length (List.map_filter g xs) \<le> length xs" for g :: "nat \<times> File \<Rightarrow> string option" and xs
    by (induction xs) (auto simp: map_filter_simps split: option.splits)
  from this [of _ "List.enumerate i files"] show ?thesis
    by (simp add: succeededUrls_def)
qed

text \<open>
  C6. With a signed-in user, every selected file is uploaded in turn, in the order of the
  selection, whatever the earlier uploads did; when \<^verbatim>\<open>addDoc\<close> resolves, the feedback
  document it creates holds exactly the download URLs of the uploads that resolved, in
  the order of their files; and in a state the component can reach these are at most
  three.
\<close>

theorem onSubmit_partial_success:
  "attempted (snd (onSubmit env (Some user) fb (s, b)))
      = attempted b @ map (Pair (uid user)) (selectedFiles s)
   \<and> (addDocOk env \<longrightarrow>
        feedback (snd (onSubmit env (Some user) fb (s, b)))
          = feedback b @
            [\<lparr>doc_userId = uid user, doc_userEmail = user_email user, doc_feedback = fb,
              doc_attachments = succeededUrls env 0 (selectedFiles s),
              doc_createdAt = now env\<rparr>])
   \<and> (reachable s \<longrightarrow> length (succeededUrls env 0 (selectedFiles s)) \<le> 3)"
proof (intro conjI impI)
  obtain urls ts b1 where u: "uploadAll env user 0 (selectedFiles s) ([], toasts s, b) = (urls, ts, b1)"
    by (cases "uploadAll env user 0 (selectedFiles s) ([], toasts s, b)") auto
  have urls: "urls = succeededUrls env 0 (selectedFiles s)"
    using uploadAll_urls [of env user 0 "selectedFiles s" "[]" "toasts s" b] u by simp
  have att: "attempted b1 = attempted b @ map (Pair (uid user)) (selectedFiles s)"
    using uploadAll_attempted [of env user 0 "selectedFiles s" "[]" "toasts s" b] u by simp
  have fb: "feedback b1 = feedback b"
    using uploadAll_feedback [of env user 0 "selectedFiles s" "[]" "toasts s" b] u by simp
  show "attempted (snd (onSubmit env (Some user) fb (s, b)))
      = attempted b @ map (Pair (uid user)) (selectedFiles s)"
    using u att by (simp add: onSubmit_def)
  show "feedback (snd (onSubmit env (Some user) fb (s, b)))
          = feedback b @
            [\<lparr>doc_userId = uid user, doc_userEmail = user_email user, doc_feedback = fb,
              doc_attachments = succeededUrls env 0 (selectedFiles s),
              doc_createdAt = now env\<rparr>]" if "addDocOk env"
    using u urls fb that by (simp add: onSubmit_def)
  show "length (succeededUrls env 0 (selectedFiles s)) \<le> 3" if "reachable s"
    using reachable_selection_ok [OF that] succeededUrls_length [of env 0 "selectedFiles s"]
    by (simp add: selection_ok_def)
qed

lemma accepted_png: "accepted (png nm sz) \<longleftrightarrow> sz \<le> 5242880"
  by (simp add: accepted_iff png_def MAX_FILE_SIZE_def ACCEPTED_IMAGE_TYPES_def)

lemma threeSelected_files:
  "selectedFiles threeSelected = [png ''a.png'' 10, png ''b.png'' 20, png ''c.png'' 30]"
  by (simp add: threeSelected_def handleFileChange_files accepted_png initialFeedbackState_def)

lemma reachable_threeSelected: "reachable threeSelected"
  unfolding threeSelected_def by (rule reachable.change [OF reachable.initial])

theorem onSubmit_partial_success_witness:
  "addDocOk flakyEnv \<and> reachable threeSelected
   \<and> attempted (snd (onSubmit flakyEnv (Some \<lparr>uid = ''u1'', user_email = None\<rparr>) ''The chart is great''
        (threeSelected, \<lparr>attempted = [], objects = [], feedback = []\<rparr>)))
      = [(''u1'', png ''a.png'' 10), (''u1'', png ''b.png'' 20), (''u1'', png ''c.png'' 30)]
   \<and> feedback (snd (onSubmit flakyEnv (Some \<lparr>uid = ''u1'', user_email = None\<rparr>) ''The chart is great''
        (threeSelected, \<lparr>attempted = [], objects = [], feedback = []\<rparr>)))
      = [\<lparr>doc_userId = ''u1'', doc_userEmail = None, doc_feedback = ''The chart is great'',
          doc_attachments = [''https://cdn/a.png'', ''https://cdn/c.png''], doc_createdAt = 0\<rparr>]"
proof -
  have ok: "addDocOk flakyEnv" by (simp add: flakyEnv_def)
  have urls: "succeededUrls flakyEnv 0 (selectedFiles threeSelected)
                = [''https://cdn/a.png'', ''https://cdn/c.png'']"
    by (simp add: threeSelected_files succeededUrls_def flakyEnv_def enumerate_simps
          map_filter_simps png_def)
  show ?thesis
    using onSubmit_partial_success [of flakyEnv "\<lparr>uid = ''u1'', user_email = None\<rparr>"
            "''The chart is great''" threeSelected "\<lparr>attempted = [], objects = [], feedback = []\<rparr>"]
          ok reachable_threeSelected urls
    by (simp add: threeSelected_files flakyEnv_def)
qed

subsection \<open>The attachment guard\<close>

text \<open>
  C4. \<^verbatim>\<open>validateFile\<close> accepts a file of exactly 5,242,880 bytes of an allowed type and
  rejects every file of 5,242,881 bytes or more; it rejects every file whose declared type
  is outside the allow-list, whatever its size. A rejection adds exactly one toast, titled
  "File too large" exactly when the size is over the limit and "Invalid file type" exactly
  when the size is within the limit and the type is not allowed. In every state the
  component can reach, a file that \<^verbatim>\<open>validateFile\<close> rejects is not among the selected files
  after \<^verbatim>\<open>handleFileChange\<close>.
\<close>

theorem validateFile_guard:
  "(file_size file = 5242880 \<and> file_type file \<in> set ACCEPTED_IMAGE_TYPES
      \<longrightarrow> validateFile file ts = (True, ts))
   \<and> (file_size file \<ge> 5242881
      \<longrightarrow> validateFile file ts
            = (False, ts @ [\<lparr>title = ''File too large'',
                               description = file_name file @ '' is larger than 5MB'',
                               variant = ''destructive''\<rparr>]))
   \<and> (file_type file \<notin> set ACCEPTED_IMAGE_TYPES \<longrightarrow> \<not> fst (validateFile file ts))
   \<and> (\<not> fst (validateFile file ts)
      \<longrightarrow> (\<exists>t. snd (validateFile file ts) = ts @ [t]
               \<and> (title t = ''File too large'' \<longleftrightarrow> file_size file > 5242880)
               \<and> (title t = ''Invalid file type''
                    \<longleftrightarrow> file_size file \<le> 5242880 \<and> file_type file \<notin> set ACCEPTED_IMAGE_TYPES)))
   \<and> (reachable s \<and> \<not> fst (validateFile file ts)
      \<longrightarrow> file \<notin> set (selectedFiles (handleFileChange files s)))"
proof (intro conjI impI)
  show "validateFile file ts = (True, ts)"
    if "file_size file = 5242880 \<and> file_type file \<in> set ACCEPTED_IMAGE_TYPES"
    using that by (simp add: validateFile_def MAX_FILE_SIZE_def)
  show "validateFile file ts
            = (False, ts @ [\<lparr>title = ''File too large'',
                               description = file_name file @ '' is larger than 5MB'',
                               variant = ''destructive''\<rparr>])"
    if "file_size file \<ge> 5242881"
    using that by (simp add: validateFile_def MAX_FILE_SIZE_def)
  show "\<not> fst (validateFile file ts)" if "file_type file \<notin> set ACCEPTED_IMAGE_TYPES"
    using that by (simp add: validateFile_def)
  show "\<exists>t. snd (validateFile file ts) = ts @ [t]
               \<and> (title t = ''File too large'' \<longleftrightarrow> file_size file > 5242880)
               \<and> (title t = ''Invalid file type''
                    \<longleftrightarrow> file_size file \<le> 5242880 \<and> file_type file \<notin> set ACCEPTED_IMAGE_TYPES)"
    if "\<not> fst (validateFile file ts)"
    using that by (auto simp: validateFile_def MAX_FILE_SIZE_def split: if_splits)
  show "file \<notin> set (selectedFiles (handleFileChange files s))"
    if "reachable s \<and> \<not> fst (validateFile file ts)"
  proof -
    from that have "reachable (handleFileChange files s)" by (simp add: reachable.change)
    then have "list_all accepted (selectedFiles (handleFileChange files s))"
      using reachable_selection_ok selection_ok_def by blast
    moreover from that have "\<not> accepted file" by (simp add: validateFile_fst)
    ultimately show ?thesis by (auto simp: list_all_iff)
  qed
qed

theorem validateFile_guard_witness:
  "validateFile (png ''shot.png'' 5242880) [] = (True, [])
   \<and> validateFile (png ''shot.png'' 5242881) []
       = (False, [\<lparr>title = ''File too large'', description = ''shot.png is larger than 5MB'',
                    variant = ''destructive''\<rparr>])
   \<and> \<not> fst (validateFile \<lparr>file_name = ''notes.pdf'', file_size = 100, file_type = ''application/pdf''\<rparr> [])
   \<and> snd (validateFile \<lparr>file_name = ''notes.pdf'', file_size = 100, file_type = ''application/pdf''\<rparr> [])
       = [\<lparr>title = ''Invalid file type'', description = ''notes.pdf is not a supported image type'',
            variant = ''destructive''\<rparr>]
   \<and> reachable initialFeedbackState
   \<and> png ''shot.png'' 5242881 \<notin> set (selectedFiles
         (handleFileChange (Some [png ''shot.png'' 5242881]) initialFeedbackState))"
  using validateFile_guard [of "png ''shot.png'' 5242880" "[]"]
    validateFile_guard [of "png ''shot.png'' 5242881" "[]" initialFeedbackState
       "Some [png ''shot.png'' 5242881]"]
    validateFile_guard [of "\<lparr>file_name = ''notes.pdf'', file_size = 100, file_type = ''application/pdf''\<rparr>" "[]"]
    reachable.initial
  by (simp add: png_def ACCEPTED_IMAGE_TYPES_def validateFile_def MAX_FILE_SIZE_def)

subsection \<open>The cap of three\<close>

text \<open>
  C5. In every state the component can reach and for every batch of candidate files, at
  most three files are selected after \<^verbatim>\<open>handleFileChange\<close>; when three are already
  selected, the selected files and their preview URLs stay as they are, and a valid
  candidate is answered with the "Too many files" toast.
\<close>

theorem handleFileChange_cap:
  assumes "reachable s"
  shows "length (selectedFiles (handleFileChange files s)) \<le> 3
     \<and> (length (selectedFiles s) = 3 \<longrightarrow>
          selectedFiles (handleFileChange files s) = selectedFiles s
          \<and> previewUrls (handleFileChange files s) = previewUrls s)
     \<and> (length (selectedFiles s) = 3 \<and> accepted file \<longrightarrow>
          toasts (handleFileChange (Some [file]) s) = toasts s @ [tooManyFiles])"
proof (intro conjI impI)
  from assms have "reachable (handleFileChange files s)" by (rule reachable.change)
  then show "length (selectedFiles (handleFileChange files s)) \<le> 3"
    using reachable_selection_ok selection_ok_def by blast
  show "selectedFiles (handleFileChange files s) = selectedFiles s"
    if "length (selectedFiles s) = 3"
    using that by (cases files) (simp_all add: handleFileChange_None handleFileChange_files)
  show "previewUrls (handleFileChange files s) = previewUrls s"
    if "length (selectedFiles s) = 3"
    using that by (cases files) (simp_all add: handleFileChange_None handleFileChange_urls)
  show "toasts (handleFileChange (Some [file]) s) = toasts s @ [tooManyFiles]"
    if "length (selectedFiles s) = 3 \<and> accepted file"
  proof -
    from that have "validateFile file (toasts s) = (True, toasts s)"
      by (auto simp: accepted_iff validateFile_def)
    with that show ?thesis by (simp add: handleFileChange_def)
  qed
qed

theorem handleFileChange_cap_witness:
  "reachable threeSelected \<and> length (selectedFiles threeSelected) = 3
   \<and> accepted (png ''d.png'' 40)
   \<and> length (selectedFiles (handleFileChange (Some [png ''d.png'' 40]) threeSelected)) \<le> 3
   \<and> selectedFiles (handleFileChange (Some [png ''d.png'' 40]) threeSelected)
       = [png ''a.png'' 10, png ''b.png'' 20, png ''c.png'' 30]
   \<and> previewUrls (handleFileChange (Some [png ''d.png'' 40]) threeSelected)
       = previewUrls threeSelected
   \<and> toasts (handleFileChange (Some [png ''d.png'' 40]) threeSelected)
       = toasts threeSelected @ [tooManyFiles]"
  using handleFileChange_cap [OF reachable_threeSelected, of "Some [png ''d.png'' 40]" "png ''d.png'' 40"]
    reachable_threeSelected
  by (simp add: threeSelected_files accepted_png)

subsection \<open>The client guard against the storage rule\<close>

text \<open>
  C10. Some file passes \<^verbatim>\<open>validateFile\<close> and fails the storage rule for feedback
  attachments: every file of exactly 5,242,880 bytes of an allowed type does. The client
  rejects for size only above 5,242,880 bytes, the rule allows only below.
\<close>

theorem client_accepts_what_storage_rejects:
  "(\<exists>file. fst (validateFile file ts)
        \<and> \<not> feedback_attachments_create (uid user) (uploadRequest user file))
   \<and> (file_size file = 5242880 \<and> file_type file \<in> set ACCEPTED_IMAGE_TYPES \<longrightarrow>
         fst (validateFile file ts)
         \<and> \<not> feedback_attachments_create (uid user) (uploadRequest user file))
   \<and> (fst (validateFile file ts) \<longrightarrow> \<not> file_size file > 5242880)
   \<and> (feedback_attachments_create (uid user) (uploadRequest user file) \<longrightarrow> file_size file < 5242880)"
proof -
  have b: "fst (validateFile f ts) \<and> \<not> feedback_attachments_create (uid user) (uploadRequest user f)"
    if "file_size f = 5242880 \<and> file_type f \<in> set ACCEPTED_IMAGE_TYPES" for f
    using that
    by (simp add: validateFile_def MAX_FILE_SIZE_def feedback_attachments_create_def uploadRequest_def)
  have "file_size (png ''shot.png'' 5242880) = 5242880
        \<and> file_type (png ''shot.png'' 5242880) \<in> set ACCEPTED_IMAGE_TYPES"
    by (simp add: png_def ACCEPTED_IMAGE_TYPES_def)
  from b [OF this] have "\<exists>file. fst (validateFile file ts)
        \<and> \<not> feedback_attachments_create (uid user) (uploadRequest user file)" by blast
  moreover have "fst (validateFile file ts) \<longrightarrow> \<not> file_size file > 5242880"
    by (simp add: validateFile_def MAX_FILE_SIZE_def)
  moreover have "feedback_attachments_create (uid user) (uploadRequest user file) \<longrightarrow> file_size file < 5242880"
    by (simp add: feedback_attachments_create_def uploadRequest_def)
  ultimately show ?thesis using b [of "file"] by blast
qed

theorem client_accepts_what_storage_rejects_witness:
  "fst (validateFile (png ''shot.png'' 5242880) [])
   \<and> \<not> feedback_attachments_create ''u1''
         (uploadRequest \<lparr>uid = ''u1'', user_email = None\<rparr> (png ''shot.png'' 5242880))
   \<and> feedback_attachments_create ''u1''
         (uploadRequest \<lparr>uid = ''u1'', user_email = None\<rparr> (png ''shot.png'' 5242879))
   \<and> file_size (png ''shot.png'' 5242879) < 5242880"
  using client_accepts_what_storage_rejects
          [of "[]" "\<lparr>uid = ''u1'', user_email = None\<rparr>" "png ''shot.png'' 5242880"]
        client_accepts_what_storage_rejects
          [of "[]" "\<lparr>uid = ''u1'', user_email = None\<rparr>" "png ''shot.png'' 5242879"]
  by (simp add: png_def ACCEPTED_IMAGE_TYPES_def feedback_attachments_create_def
        uploadRequest_def matches_image_def)

section \<open>Properties of the forms\<close>

lemma floor_five_halves: "\<lfloor>5 / 2 :: rat\<rfloor> = 2"
  using floor_divide_of_int_eq [of 5 2, where ?'a = rat] by simp

lemma painLevelIssues_empty_iff:
  "painLevelIssues v = [] \<longleftrightarrow> (\<exists>x. v = Finite x \<and> 0 \<le> x \<and> x \<le> 10)"
  by (cases v) (auto simp: painLevelIssues_def)

lemma levelInRange_iff: "levelInRange v \<longleftrightarrow> isInteger v \<and> painLevelIssues v = []"
  by (cases v) (auto simp: levelInRange_def isInteger_def painLevelIssues_def)

lemma levelInRange_onValueChange:
  assumes "levelInRange (form_painLevel (form_values f))"
  shows "levelInRange (form_painLevel (form_values (onValueChange k f)))"
  using assms
  by (auto simp: onValueChange_def sliderPosition_def levelInRange_def split: option.splits)

lemma form_ok_submit:
  assumes "form_ok f"
  shows "form_ok (snd (handleSubmit entrySchema (onSubmitEntry cu addOk clock) (form_values f) f))"
  using assms
  by (auto simp: form_ok_def handleSubmit_def onSubmitEntry_def entryDefaults_def Let_def
        levelInRange_def split: option.splits jsdate.splits)

lemma form_reachable_ok: "form_reachable f \<Longrightarrow> form_ok f"
proof (induction rule: form_reachable.induct)
  case (form_initial clock)
  show ?case by (simp add: form_ok_def initialEntryForm_def entryDefaults_def levelInRange_def)
next
  case (form_slide f k)
  then show ?case
    using levelInRange_onValueChange [of f k]
    by (auto simp: form_ok_def onValueChange_def split: option.splits)
next
  case (form_date f d)
  then show ?case by (simp add: form_ok_def onSelectDate_def)
next
  case (form_notes f s)
  then show ?case by (simp add: form_ok_def onNotesInput_def)
next
  case (form_submit f currentUser addOk clock)
  from form_submit.IH show ?case by (rule form_ok_submit)
qed

text \<open>
  C9, as the code has it. The schema accepts a pain level exactly when it is a finite
  number between 0 and 10 inclusive, integer or not. In every state a user can bring
  the form to, the level in the form is an integer in that range, and so is the level
  of every entry written through the form.
\<close>

theorem entrySchema_painLevel:
  "(painLevelIssues v = [] \<longleftrightarrow> (\<exists>x. v = Finite x \<and> 0 \<le> x \<and> x \<le> 10))
   \<and> (form_reachable f \<longrightarrow>
        painLevelIssues (form_painLevel (form_values f)) = []
        \<and> isInteger (form_painLevel (form_values f))
        \<and> list_all (\<lambda>d. isInteger (pdoc_painLevel d) \<and> painLevelIssues (pdoc_painLevel d) = [])
             (painEntries f))"
proof (intro conjI impI)
  show "painLevelIssues v = [] \<longleftrightarrow> (\<exists>x. v = Finite x \<and> 0 \<le> x \<and> x \<le> 10)"
    by (rule painLevelIssues_empty_iff)
  assume "form_reachable f"
  then have ok: "form_ok f" by (rule form_reachable_ok)
  then show "painLevelIssues (form_painLevel (form_values f)) = []"
    and "isInteger (form_painLevel (form_values f))"
    by (simp_all add: form_ok_def levelInRange_iff)
  from ok show "list_all (\<lambda>d. isInteger (pdoc_painLevel d) \<and> painLevelIssues (pdoc_painLevel d) = [])
             (painEntries f)"
    by (simp add: form_ok_def levelInRange_iff)
qed

text \<open>The schema accepts 2.5, which is not an integer.\<close>

theorem entrySchema_accepts_fraction:
  "entrySchema \<lparr>form_painLevel = Finite (5 / 2), form_date = Some (Instant 0), form_notes = ''''\<rparr> = []
   \<and> \<not> isInteger (Finite (5 / 2))"
  by (simp add: entrySchema_def painLevelIssues_def isInteger_def floor_five_halves)

lemma sevenSubmitted_entries:
  "painEntries sevenSubmitted
     = [\<lparr>pdoc_userId = ''u1'', pdoc_painLevel = Finite 7, pdoc_date = Instant 0,
         pdoc_notes = [], pdoc_createdAt = 1000\<rparr>]"
  by (simp add: sevenSubmitted_def handleSubmit_def entrySchema_def painLevelIssues_def
        onValueChange_def sliderPosition_def initialEntryForm_def entryDefaults_def
        onSubmitEntry_def)

lemma reachable_sevenSubmitted: "form_reachable sevenSubmitted"
  unfolding sevenSubmitted_def
  by (intro form_reachable.form_submit form_reachable.form_slide form_reachable.form_initial)

theorem entrySchema_painLevel_witness:
  "form_reachable sevenSubmitted
   \<and> painEntries sevenSubmitted
       = [\<lparr>pdoc_userId = ''u1'', pdoc_painLevel = Finite 7, pdoc_date = Instant 0,
           pdoc_notes = [], pdoc_createdAt = 1000\<rparr>]
   \<and> isInteger (Finite 7) \<and> painLevelIssues (Finite 7) = []
   \<and> painLevelIssues (Finite 11) \<noteq> []"
  using entrySchema_painLevel [of "Finite 7" sevenSubmitted]
    entrySchema_painLevel [of "Finite 11" sevenSubmitted] reachable_sevenSubmitted
  by (simp add: sevenSubmitted_entries)

text \<open>
  C8. The settings schema accepts a display name exactly when its length is between 2
  and 50; the registration schema has the lower bound only. A display name of 51
  characters raises no issue at registration, whose submit handler is called with it,
  while the settings form refuses it.
\<close>

theorem register_accepts_long_displayName:
  "(settingsSchema sd = [] \<longleftrightarrow> 2 \<le> length (set_displayName sd) \<and> length (set_displayName sd) \<le> 50)
   \<and> (''displayName'' \<in> set (registerSchema isEmail rd) \<longleftrightarrow> length (reg_displayName rd) < 2)
   \<and> registerSchema isEmail
      \<lparr>reg_email = e, reg_password = p, reg_displayName = replicate 51 (CHR ''a''),
       reg_profilePicture = pic\<rparr>
     = (if isEmail e then [] else [''email'']) @ (if length p < 6 then [''password''] else [])
   \<and> settingsSchema \<lparr>set_displayName = replicate 51 (CHR ''a''), set_profilePicture = pic\<rparr>
     = [''displayName'']
   \<and> handleSubmit (registerSchema (\<lambda>s. s = ''pat@example.com'')) onRegister
        \<lparr>reg_email = ''pat@example.com'', reg_password = ''secret'',
         reg_displayName = replicate 51 (CHR ''a''), reg_profilePicture = None\<rparr> w
     = ([], onRegister
        \<lparr>reg_email = ''pat@example.com'', reg_password = ''secret'',
         reg_displayName = replicate 51 (CHR ''a''), reg_profilePicture = None\<rparr> w)
   \<and> handleSubmit settingsSchema onSave
        \<lparr>set_displayName = replicate 51 (CHR ''a''), set_profilePicture = None\<rparr> w'
     = ([''displayName''], w')"
  by (auto simp: registerSchema_def settingsSchema_def handleSubmit_def)

section \<open>Properties of the chart\<close>

subsection \<open>Rounding\<close>

lemma roundHalfEven_error: "\<bar>of_int (roundHalfEven y) - y\<bar> \<le> 1 / 2"
proof -
  define f where "f = \<lfloor>y\<rfloor>"
  define r where "r = y - of_int f"
  have r: "0 \<le> r" "r < 1" unfolding r_def f_def by linarith+
  have y: "y = of_int f + r" by (simp add: r_def)
  have "roundHalfEven y - f = 0 \<and> r \<le> 1 / 2 \<or> roundHalfEven y - f = 1 \<and> 1 / 2 \<le> r"
    unfolding roundHalfEven_def Let_def f_def [symmetric] r_def [symmetric] by auto
  then consider "roundHalfEven y = f" "r \<le> 1 / 2" | "roundHalfEven y = f + 1" "1 / 2 \<le> r"
    by auto
  then show ?thesis
  proof cases
    case 1
    with r show ?thesis by (simp add: y)
  next
    case 2
    with r show ?thesis by (simp add: y)
  qed
qed

lemma ilog2_le:
  assumes "0 < x"
  shows "2 powi (ilog2 x) \<le> x"
proof -
  obtain p q where pq: "quotient_of x = (p, q)" by (cases "quotient_of x")
  then have q: "0 < q" by (rule quotient_of_denom_pos)
  from pq have x: "x = of_int p / of_int q" by (rule quotient_of_div)
  with assms q have p: "0 < p" by (simp add: zero_less_divide_iff)
  define e where "e = bitlen p - bitlen q"
  have bp: "1 \<le> bitlen p" and bq: "1 \<le> bitlen q"
    using p q by (simp_all add: bitlen_alt_def)
  have "(2::int) ^ nat (bitlen p - 1) \<le> p" using bitlen_bounds [OF p] by simp
  then have "(of_int ((2::int) ^ nat (bitlen p - 1)) :: rat) \<le> of_int p"
    by (simp only: of_int_le_iff)
  then have lo: "(2::rat) powi (bitlen p - 1) \<le> of_int p"
    using bp by (simp add: power_int_def)
  have "q < 2 ^ nat (bitlen q)" using bitlen_bounds [OF q] by simp
  then have "(of_int q :: rat) < of_int ((2::int) ^ nat (bitlen q))"
    by (simp only: of_int_less_iff)
  then have hi: "of_int q < (2::rat) powi (bitlen q)"
    using bq by (simp add: power_int_def)
  have "e - 1 = (bitlen p - 1) - bitlen q" by (simp add: e_def)
  then have "(2::rat) powi (e - 1) = 2 powi (bitlen p - 1) / 2 powi (bitlen q)"
    by (simp only: power_int_diff) (simp add: power_int_diff)
  also have "\<dots> \<le> of_int p / 2 powi (bitlen q)"
    using lo by (simp add: divide_right_mono)
  also have "\<dots> \<le> of_int p / of_int q"
    using hi p q by (simp add: frac_le)
  finally have "(2::rat) powi (e - 1) \<le> x" by (simp add: x)
  then show ?thesis
    by (simp add: ilog2_def pq e_def Let_def)
qed

lemma ilog2_less:
  assumes "0 < x"
  shows "x < 2 powi (ilog2 x + 1)"
proof -
  obtain p q where pq: "quotient_of x = (p, q)" by (cases "quotient_of x")
  then have q: "0 < q" by (rule quotient_of_denom_pos)
  from pq have x: "x = of_int p / of_int q" by (rule quotient_of_div)
  with assms q have p: "0 < p" by (simp add: zero_less_divide_iff)
  define e where "e = bitlen p - bitlen q"
  have bp: "1 \<le> bitlen p" and bq: "1 \<le> bitlen q"
    using p q by (simp_all add: bitlen_alt_def)
  have "p < 2 ^ nat (bitlen p)" using bitlen_bounds [OF p] by simp
  then have "(of_int p :: rat) < of_int ((2::int) ^ nat (bitlen p))"
    by (simp only: of_int_less_iff)
  then have hi: "of_int p < (2::rat) powi (bitlen p)"
    using bp by (simp add: power_int_def)
  have "(2::int) ^ nat (bitlen q - 1) \<le> q" using bitlen_bounds [OF q] by simp
  then have "(of_int ((2::int) ^ nat (bitlen q - 1)) :: rat) \<le> of_int q"
    by (simp only: of_int_le_iff)
  then have lo: "(2::rat) powi (bitlen q - 1) \<le> of_int q"
    using bq by (simp add: power_int_def)
  have "of_int p / of_int q < (2::rat) powi (bitlen p) / of_int q"
    using hi q by (simp add: divide_strict_right_mono)
  also have "\<dots> \<le> 2 powi (bitlen p) / 2 powi (bitlen q - 1)"
    using lo q by (intro divide_left_mono mult_pos_pos) simp_all
  also have "\<dots> = 2 powi (bitlen p - (bitlen q - 1))"
    by (simp add: power_int_diff)
  also have "bitlen p - (bitlen q - 1) = e + 1" by (simp add: e_def)
  finally have "x < 2 powi (e + 1)" by (simp add: x)
  then show ?thesis
    by (auto simp: ilog2_def pq e_def Let_def)
qed

text \<open>The value of \<open>fl64\<close> has a significand of 53 bits.\<close>

lemma fl64_significand:
  assumes "0 < x"
  shows "\<exists>m. fl64 x = of_int m * 2 powi (ilog2 x - 52) \<and> 2 ^ 52 \<le> m \<and> m \<le> 2 ^ 53"
proof -
  define u :: rat where "u = 2 powi (ilog2 x - 52)"
  define y where "y = x / u"
  define m where "m = roundHalfEven y"
  have u: "0 < u" by (simp add: u_def)
  have "2 powi (ilog2 x) = u * 2 ^ 52" by (simp add: u_def power_int_diff)
  with ilog2_le [OF assms] have lo: "2 ^ 52 \<le> y"
    using u by (simp add: y_def le_divide_eq mult.commute)
  have "2 powi (ilog2 x + 1) = u * 2 ^ 53" by (simp add: u_def power_int_diff power_int_add)
  with ilog2_less [OF assms] have hi: "y < 2 ^ 53"
    using u by (simp add: y_def divide_less_eq mult.commute)
  have "\<lfloor>y\<rfloor> \<le> m" "m \<le> \<lfloor>y\<rfloor> + 1"
    by (auto simp: m_def roundHalfEven_def Let_def)
  moreover have "2 ^ 52 \<le> \<lfloor>y\<rfloor>" using lo by (simp add: le_floor_iff)
  moreover have "\<lfloor>y\<rfloor> < 2 ^ 53" using hi by (simp add: floor_less_iff)
  ultimately have "2 ^ 52 \<le> m" "m \<le> 2 ^ 53" by linarith+
  moreover have "fl64 x = of_int m * u"
    using assms by (simp add: fl64_def u_def m_def y_def Let_def)
  ultimately show ?thesis unfolding u_def by blast
qed

lemma fl64_error:
  assumes "0 < x"
  shows "\<bar>fl64 x - x\<bar> \<le> x / 2 ^ 53"
proof -
  define u :: rat where "u = 2 powi (ilog2 x - 52)"
  define a :: rat where "a = of_int (roundHalfEven (x / u))"
  have u: "0 < u" by (simp add: u_def)
  have "u = 2 powi (ilog2 x) / 2 ^ 52"
    by (simp add: u_def power_int_diff)
  also have "\<dots> \<le> x / 2 ^ 52"
    using ilog2_le [OF assms] by (simp add: divide_right_mono)
  finally have ux: "u \<le> x / 2 ^ 52" .
  have fl: "fl64 x = a * u"
    using assms by (simp add: fl64_def u_def a_def Let_def)
  have "a * u - x = (a - x / u) * u" using u by (simp add: field_simps)
  then have "\<bar>a * u - x\<bar> = \<bar>a - x / u\<bar> * u"
    using u by (simp add: abs_mult)
  also have "\<dots> \<le> 1 / 2 * u"
    using roundHalfEven_error [of "x / u"] u unfolding a_def by (intro mult_right_mono) simp_all
  also have "\<dots> \<le> 1 / 2 * (x / 2 ^ 52)"
    using ux by simp
  finally show ?thesis by (simp add: fl)
qed

lemma fl64_nonneg:
  assumes "0 \<le> x"
  shows "0 \<le> fl64 x"
proof (cases "x = 0")
  case True
  then show ?thesis by (simp add: fl64_def)
next
  case False
  with assms have x: "0 < x" by simp
  define d where "d = x / 2 ^ 53"
  have "d \<le> x" using x by (simp add: d_def field_simps)
  moreover have "\<bar>fl64 x - x\<bar> \<le> d" using fl64_error [OF x] by (simp add: d_def)
  ultimately show ?thesis by arith
qed

lemma nearest_tenth_of_quotient:
  fixes T c :: int
  assumes T: "0 \<le> T" "T \<le> 10 * c" and c: "0 < c" "c < 2 ^ 32"
  defines "q \<equiv> (of_int T / of_int c :: rat)"
  shows "\<bar>of_int (toFixed1 (fl64 q)) / 10 - q\<bar> \<le> 1 / 20"
proof -
  define x where "x = fl64 q"
  define n where "n = \<lfloor>10 * x + 1 / 2\<rfloor>"
  have q0: "0 \<le> q" and q10: "q \<le> 10"
    using T c by (simp_all add: q_def divide_le_eq)
  have x0: "0 \<le> x" unfolding x_def using q0 by (rule fl64_nonneg)
  have n: "toFixed1 x = n" using x0 by (simp add: toFixed1_def n_def)
  have xq: "\<bar>x - q\<bar> \<le> 10 / 2 ^ 53"
  proof (cases "q = 0")
    case True
    then show ?thesis by (simp add: x_def fl64_def)
  next
    case False
    with q0 have "0 < q" by simp
    from fl64_error [OF this] have "\<bar>x - q\<bar> \<le> q / 2 ^ 53" by (simp add: x_def)
    also have "\<dots> \<le> 10 / 2 ^ 53" using q10 by (simp add: divide_right_mono)
    finally show ?thesis .
  qed
  have nx: "\<bar>of_int n - 10 * x\<bar> \<le> 1 / 2"
  proof -
    have "of_int n \<le> 10 * x + 1 / 2" "10 * x + 1 / 2 < of_int n + 1"
      unfolding n_def by linarith+
    then show ?thesis by linarith
  qed
  have nq: "\<bar>of_int n - 10 * q\<bar> \<le> 1 / 2 + 100 / 2 ^ 53"
    using nx xq by linarith
  define j where "j = n * c - 10 * T"
  have jc: "(of_int j :: rat) = of_int c * (of_int n - 10 * q)"
    using c by (simp add: j_def q_def field_simps)
  have cr: "(0::rat) < of_int c" using c by simp
  have "\<bar>of_int j :: rat\<bar> = of_int c * \<bar>of_int n - 10 * q\<bar>"
    using cr by (simp add: jc abs_mult)
  also have "\<dots> \<le> of_int c * (1 / 2 + 100 / 2 ^ 53)"
    using nq cr by (intro mult_left_mono) simp_all
  also have "\<dots> < of_int c / 2 + 1 / 2"
  proof -
    have "(of_int c :: rat) < 2 ^ 32" using c by (simp add: of_int_less_numeral_power_cancel_iff)
    then show ?thesis by (simp add: field_simps)
  qed
  finally have "2 * \<bar>of_int j :: rat\<bar> < of_int c + 1" by simp
  then have "(of_int (2 * \<bar>j\<bar>) :: rat) < of_int (c + 1)" by simp
  then have "2 * \<bar>j\<bar> < c + 1" by (simp only: of_int_less_iff)
  then have "2 * \<bar>j\<bar> \<le> c" by simp
  then have "(of_int (2 * \<bar>j\<bar>) :: rat) \<le> of_int c" by (simp only: of_int_le_iff)
  then have "2 * (of_int c * \<bar>of_int n - 10 * q\<bar>) \<le> of_int c * 1"
    using cr by (simp add: jc abs_mult)
  then have "of_int c * (2 * \<bar>of_int n - 10 * q\<bar>) \<le> of_int c * 1"
    by (simp add: mult.left_commute)
  then have "2 * \<bar>of_int n - 10 * q\<bar> \<le> 1"
    using cr by (simp only: mult_le_cancel_left_pos)
  moreover have "of_int n / 10 - q = (of_int n - 10 * q) / 10" by (simp add: field_simps)
  then have "\<bar>of_int n / 10 - q\<bar> = \<bar>of_int n - 10 * q\<bar> / 10"
    by (simp only: abs_divide abs_numeral)
  ultimately show ?thesis
    unfolding x_def [symmetric] n by linarith
qed

lemma Number_toFixed1_small:
  assumes "\<bar>x\<bar> < 10 ^ 21"
  shows "Number_toFixed1 x = fl64 (of_int (toFixed1 x) / 10)"
  using assms by (simp add: Number_toFixed1_def)

subsection \<open>Filtering and grouping\<close>

lemma filteredEntries_inWindow: "filteredEntries entries w = filter (inWindow w) entries"
  unfolding filteredEntries_def
  by (rule filter_cong [OF refl])
     (auto simp: inWindow_def date_ge_def date_le_def split: jsdate.splits)

lemma validDates_filteredEntries: "validDates (filteredEntries entries w)"
  by (auto simp: validDates_def filteredEntries_inWindow list_all_iff inWindow_def
           split: jsdate.splits)

lemma format_key: "date e \<noteq> InvalidDate \<Longrightarrow> format_yyyy_MM_dd (date e) = Inr (entryKey e)"
  by (cases "date e") (simp_all add: format_yyyy_MM_dd_def entryKey_def)

lemma dailyData_buckets:
  assumes "validDates es" "distinct (map fst acc)"
  shows "\<exists>res. dailyData acc es = Inr res \<and> distinct (map fst res)
           \<and> (\<forall>k. map_of res k = bucketOf (map_of acc k) (sameDay k es))"
  using assms
proof (induction es arbitrary: acc)
  case Nil
  then show ?case by (auto simp: sameDay_def bucketOf_def split: option.splits)
next
  case (Cons e es)
  from Cons.prems have e: "date e \<noteq> InvalidDate" and es: "validDates es"
    by (simp_all add: validDates_def)
  note fk = format_key [OF e]
  show ?case
  proof (cases "map_of acc (entryKey e)")
    case None
    let ?b = "\<lparr>bucket_date = date e, totalPain = painLevel e, count = 1\<rparr>"
    let ?acc = "acc @ [(entryKey e, ?b)]"
    from None have "entryKey e \<notin> fst ` set acc" by (simp add: map_of_eq_None_iff)
    with Cons.prems have "distinct (map fst ?acc)" by simp
    from Cons.IH [OF es this] obtain res where
      res: "dailyData ?acc es = Inr res" "distinct (map fst res)"
        "\<And>k. map_of res k = bucketOf (map_of ?acc k) (sameDay k es)" by blast
    have "map_of res k = bucketOf (map_of acc k) (sameDay k (e # es))" for k
    proof (cases "k = entryKey e")
      case True
      with None show ?thesis
        by (simp add: res(3) bucketOf_def sameDay_def map_add_def)
    next
      case False
      then show ?thesis
        by (simp add: res(3) sameDay_def map_add_def split: option.splits)
    qed
    with res(1,2) None fk show ?thesis by simp
  next
    case (Some b)
    let ?b = "b\<lparr>totalPain := totalPain b + painLevel e, count := count b + 1\<rparr>"
    let ?acc = "AList.update (entryKey e) ?b acc"
    from Cons.prems have "distinct (map fst ?acc)" by (simp add: distinct_update)
    from Cons.IH [OF es this] obtain res where
      res: "dailyData ?acc es = Inr res" "distinct (map fst res)"
        "\<And>k. map_of res k = bucketOf (map_of ?acc k) (sameDay k es)" by blast
    have "map_of res k = bucketOf (map_of acc k) (sameDay k (e # es))" for k
    proof (cases "k = entryKey e")
      case True
      with Some show ?thesis
        by (simp add: res(3) bucketOf_def sameDay_def update_conv')
    next
      case False
      then show ?thesis
        by (simp add: res(3) sameDay_def update_conv')
    qed
    with res(1,2) Some fk show ?thesis by simp
  qed
qed

subsection \<open>The chart points\<close>

lemma set_insertBy: "set (insertBy cmp x ys) = insert x (set ys)"
  by (induction ys) auto

lemma length_insertBy: "length (insertBy cmp x ys) = Suc (length ys)"
  by (induction ys) auto

lemma set_sortBy: "set (sortBy cmp xs) = set xs"
  by (induction xs) (simp_all add: sortBy_def set_insertBy)

lemma length_sortBy: "length (sortBy cmp xs) = length xs"
  by (induction xs) (simp_all add: sortBy_def length_insertBy)

lemma chartPoints_valid:
  assumes "list_all (\<lambda>b. \<exists>es. es \<noteq> [] \<and> validDates es \<and> bucketOf None es = Some b) bs"
  shows "\<exists>ps. chartPoints bs = Inr ps \<and> length ps = length bs
           \<and> (\<forall>i<length bs. \<forall>es. bucketOf None es = Some (bs ! i) \<longrightarrow> ps ! i = dayPoint es)"
  using assms
proof (induction bs)
  case Nil
  show ?case by simp
next
  case (Cons b bs)
  then obtain ps where ps: "chartPoints bs = Inr ps" "length ps = length bs"
     "\<And>i es. i < length bs \<Longrightarrow> bucketOf None es = Some (bs ! i) \<Longrightarrow> ps ! i = dayPoint es"
    by auto
  from Cons.prems obtain es0 where es0: "es0 \<noteq> []" "validDates es0" "bucketOf None es0 = Some b"
    by auto
  have pt: "chartPoint b = Inr (dayPoint es)" if "bucketOf None es = Some b" for es
  proof -
    from that obtain e rest where es: "es = e # rest" by (cases es) (auto simp: bucketOf_def)
    from es0 obtain e0 rest0 where e0: "es0 = e0 # rest0" by (cases es0) auto
    with es0 have "bucket_date b = date e0" "date e0 \<noteq> InvalidDate"
      by (auto simp: bucketOf_def validDates_def)
    moreover from that es have "bucket_date b = date e" by (auto simp: bucketOf_def)
    ultimately obtain t where t: "date e = Instant t" by (cases "date e") auto
    from that es show ?thesis
      by (auto simp: t bucketOf_def chartPoint_def dayPoint_def format_MMM_d_def)
  qed
  from pt [OF es0(3)] ps(1) have "chartPoints (b # bs) = Inr (dayPoint es0 # ps)" by simp
  moreover have "(dayPoint es0 # ps) ! i = dayPoint es"
    if "i < length (b # bs)" "bucketOf None es = Some ((b # bs) ! i)" for i es
  proof (cases i)
    case 0
    with that pt [of es] pt [OF es0(3)] show ?thesis by simp
  next
    case (Suc j)
    with that ps(3) [of j es] show ?thesis by simp
  qed
  ultimately show ?case using ps(2) by auto
qed

lemma validDates_sameDay: "validDates es \<Longrightarrow> validDates (sameDay k es)"
  by (simp add: validDates_def sameDay_def list_all_iff)

lemma bucketOf_None_eq_None: "bucketOf None es = None \<longleftrightarrow> es = []"
  by (cases es) (simp_all add: bucketOf_def)

lemma sameDay_eq_Nil: "sameDay k es = [] \<longleftrightarrow> k \<notin> entryKey ` set es"
  by (auto simp: sameDay_def filter_empty_conv)

lemma dailyData_days:
  assumes "validDates fs"
  shows "\<exists>daily. dailyData [] fs = Inr daily \<and> distinct (map fst daily)
           \<and> set (map fst daily) = entryKey ` set fs
           \<and> (\<forall>(k, b) \<in> set daily. bucketOf None (sameDay k fs) = Some b)"
proof -
  from dailyData_buckets [OF assms, of "[]"] obtain daily where
    d: "dailyData [] fs = Inr daily" "distinct (map fst daily)"
       "\<And>k. map_of daily k = bucketOf None (sameDay k fs)" by auto
  have "set (map fst daily) = dom (map_of daily)" by (simp add: dom_map_of_conv_image_fst)
  also have "\<dots> = entryKey ` set fs"
    by (auto simp: dom_def d(3) bucketOf_None_eq_None sameDay_eq_Nil)
  finally have keys: "set (map fst daily) = entryKey ` set fs" .
  have "bucketOf None (sameDay k fs) = Some b" if "(k, b) \<in> set daily" for k b
    using map_of_is_SomeI [OF d(2) that] by (simp add: d(3))
  then have "\<forall>(k, b) \<in> set daily. bucketOf None (sameDay k fs) = Some b" by auto
  with d(1,2) keys show ?thesis by (intro exI [of _ daily] conjI)
qed

lemma chartData_points:
  "\<exists>points. chartData entries w = Inr points
     \<and> length points = card (entryKey ` set (filteredEntries entries w))
     \<and> set points = (\<lambda>e. dayPoint (dayEntries entries w e)) ` set (filteredEntries entries w)"
proof -
  define fs where "fs = filteredEntries entries w"
  have v: "validDates fs" unfolding fs_def by (rule validDates_filteredEntries)
  from dailyData_days [OF v] obtain daily where
    d: "dailyData [] fs = Inr daily" "distinct (map fst daily)"
       "set (map fst daily) = entryKey ` set fs"
       "\<And>k b. (k, b) \<in> set daily \<Longrightarrow> bucketOf None (sameDay k fs) = Some b" by fast
  have "list_all (\<lambda>b. \<exists>es. es \<noteq> [] \<and> validDates es \<and> bucketOf None es = Some b) (map snd daily)"
  proof -
    have "\<exists>es. es \<noteq> [] \<and> validDates es \<and> bucketOf None es = Some b" if "(k, b) \<in> set daily" for k b
    proof -
      from d(4) [OF that] have "bucketOf None (sameDay k fs) = Some b" .
      moreover from this have "sameDay k fs \<noteq> []" by (auto simp: bucketOf_def)
      ultimately show ?thesis using validDates_sameDay [OF v, of k] by blast
    qed
    then show ?thesis by (auto simp: list_all_iff)
  qed
  from chartPoints_valid [OF this] obtain ps where
    ps: "chartPoints (map snd daily) = Inr ps" "length ps = length daily"
        "\<And>i es. i < length daily \<Longrightarrow> bucketOf None es = Some (snd (daily ! i)) \<Longrightarrow> ps ! i = dayPoint es"
    by auto
  have "ps ! i = dayPoint (sameDay (fst (daily ! i)) fs)" if "i < length daily" for i
  proof -
    from that have "(fst (daily ! i), snd (daily ! i)) \<in> set daily" by simp
    from ps(3) [OF that d(4) [OF this]] show ?thesis .
  qed
  then have "ps = map (\<lambda>k. dayPoint (sameDay k fs)) (map fst daily)"
    using ps(2) by (intro nth_equalityI) simp_all
  then have "set ps = (\<lambda>k. dayPoint (sameDay k fs)) ` set (map fst daily)"
    by (simp only: set_map)
  then have "set ps = (\<lambda>k. dayPoint (sameDay k fs)) ` entryKey ` set fs"
    by (simp only: d(3))
  then have set: "set ps = (\<lambda>e. dayPoint (dayEntries entries w e)) ` set fs"
    by (simp add: image_image dayEntries_def fs_def)
  have "length ps = card (set (map fst daily))"
    using distinct_card [OF d(2)] ps(2) by simp
  then have len: "length ps = card (entryKey ` set fs)" by (simp only: d(3))
  have "chartData entries w = Inr (sortBy compareByDate ps)"
    using d(1) ps(1) by (simp add: chartData_def fs_def)
  moreover have "length (sortBy compareByDate ps) = card (entryKey ` set fs)"
    by (simp only: length_sortBy len)
  moreover have "set (sortBy compareByDate ps) = (\<lambda>e. dayPoint (dayEntries entries w e)) ` set fs"
    by (simp only: set_sortBy set)
  ultimately show ?thesis
    unfolding fs_def by (intro exI [of _ "sortBy compareByDate ps"] conjI)
qed

subsection \<open>Calendar days\<close>

text \<open>
  The day of the year that \<open>civil\<close> computes lies between 0 and 365, so the month is
  between 1 and 12 and the day of the month between 1 and 31.
\<close>

lemma div_bounds:
  fixes x d :: int
  assumes "0 < d"
  shows "d * (x div d) \<le> x \<and> x < d * (x div d) + d"
proof -
  have "x = d * (x div d) + x mod d" by simp
  moreover have "0 \<le> x mod d" "x mod d < d" using assms by simp_all
  ultimately show ?thesis by linarith
qed

lemma div_eqI:
  fixes x d q :: int
  assumes "d * q \<le> x" "x < d * q + d"
  shows "x div d = q"
proof -
  from assms have d: "0 < d" by linarith
  have "x = q * d + (x - d * q)" by (simp add: algebra_simps)
  moreover have "0 \<le> x - d * q" "x - d * q < d" using assms by linarith+
  ultimately show ?thesis
    by (metis div_pos_pos_trivial div_mult_self3 add.right_neutral d less_irrefl add.commute)
qed

lemma doy_bounds:
  fixes doe :: int
  assumes doe: "0 \<le> doe" "doe < 146097"
  defines "yoe \<equiv> (doe - doe div 1460 + doe div 36524 - doe div 146096) div 365"
  defines "doy \<equiv> doe - (365 * yoe + yoe div 4 - yoe div 100)"
  shows "0 \<le> doy \<and> doy \<le> 365"
proof (cases "doe = 146096")
  case True
  then show ?thesis by (simp add: doy_def yoe_def)
next
  case False
  with doe have lt: "doe < 146096" by simp
  define b where "b = doe div 36524"
  define a where "a = doe div 1460"
  define N where "N = doe - a + b"
  define n4 where "n4 = N div 1460"
  have c: "doe div 146096 = 0" using doe lt by simp
  have b1: "36524 * b \<le> doe" and b2: "doe < 36524 * b + 36524"
    using div_bounds [of 36524 doe] by (simp_all add: b_def)
  have a1: "1460 * a \<le> doe" and a2: "doe < 1460 * a + 1460"
    using div_bounds [of 1460 doe] by (simp_all add: a_def)
  have b: "0 \<le> b" "b \<le> 3" using doe lt b1 b2 by linarith+
  have ab: "25 * b \<le> a" using a2 b1 b by linarith
  have N1: "36500 * b \<le> N" unfolding N_def using a1 a2 b1 b2 b by linarith
  have N2: "N < 36500 * b + 36500" unfolding N_def using a1 a2 b1 b2 b by linarith
  have n100: "N div 36500 = b" using N1 N2 by (rule div_eqI)
  have yoe: "yoe = N div 365" by (simp add: yoe_def c N_def a_def b_def)
  have y4: "yoe div 4 = n4" unfolding yoe n4_def
    using zdiv_zmult2_eq [of 4 N 365] by simp
  have y100: "yoe div 100 = b" unfolding yoe n100 [symmetric]
    using zdiv_zmult2_eq [of 100 N 365] by simp
  have m1: "1460 * n4 \<le> N" and m2: "N < 1460 * n4 + 1460"
    using div_bounds [of 1460 N] by (simp_all add: n4_def)
  have d: "n4 \<le> a" "a \<le> n4 + 1"
    using m1 m2 a1 a2 ab b lt unfolding N_def by linarith+
  have y1: "365 * yoe \<le> N" and y2: "N < 365 * yoe + 365"
    using div_bounds [of 365 N] by (simp_all add: yoe)
  have "doy = (N - 365 * yoe) + (a - n4)"
    by (simp add: doy_def y4 y100 N_def)
  with y1 y2 d show ?thesis by linarith
qed

lemma month_day_bounds:
  fixes doy :: int
  assumes "0 \<le> doy" "doy \<le> 365"
  defines "mp \<equiv> (5 * doy + 2) div 153"
  shows "0 \<le> mp \<and> mp \<le> 11
         \<and> 1 \<le> doy - (153 * mp + 2) div 5 + 1 \<and> doy - (153 * mp + 2) div 5 + 1 \<le> 31"
proof -
  define e where "e = (153 * mp + 2) div 5"
  have m: "153 * mp \<le> 5 * doy + 2" "5 * doy + 2 < 153 * mp + 153"
    using div_bounds [of 153 "5 * doy + 2"] by (simp_all add: mp_def)
  have e: "5 * e \<le> 153 * mp + 2" "153 * mp + 2 < 5 * e + 5"
    using div_bounds [of 5 "153 * mp + 2"] by (simp_all add: e_def)
  from assms(1,2) m e show ?thesis unfolding e_def [symmetric] by linarith
qed

lemma civil_bounds:
  assumes "civil t = (y, m, d)"
  shows "1 \<le> m \<and> m \<le> 12 \<and> 1 \<le> d \<and> d \<le> 31"
proof -
  define doe where "doe = (t div msPerDay + 719468) mod 146097"
  define yoe where "yoe = (doe - doe div 1460 + doe div 36524 - doe div 146096) div 365"
  define doy where "doy = doe - (365 * yoe + yoe div 4 - yoe div 100)"
  define mp where "mp = (5 * doy + 2) div 153"
  define M where "M = (if mp < 10 then mp + 3 else mp - 9)"
  define D where "D = doy - (153 * mp + 2) div 5 + 1"
  have doe: "0 \<le> doe" "doe < 146097" unfolding doe_def by simp_all
  have doy: "0 \<le> doy" "doy \<le> 365"
    using doy_bounds [OF doe] unfolding doy_def yoe_def by blast+
  have md: "0 \<le> mp \<and> mp \<le> 11 \<and> 1 \<le> D \<and> D \<le> 31"
    using month_day_bounds [OF doy] unfolding mp_def D_def .
  have "civil t = (yoe + (t div msPerDay + 719468) div 146097 * 400 + (if M \<le> 2 then 1 else 0), M, D)"
    by (simp only: civil_def Let_def doe_def yoe_def doy_def mp_def M_def D_def)
  with assms have "m = M" "d = D" by simp_all
  with md show ?thesis unfolding M_def by (simp split: if_splits)
qed

text \<open>
  Printing a number with leading zeros can be undone, so two instants in the years from 1
  on have the same \<^verbatim>\<open>yyyy-MM-dd\<close> key exactly when they fall on the same calendar day.
\<close>

lemma indexOf_digit: "indexOf (digit n) ''0123456789'' = Some (n mod 10)"
proof -
  define k where "k = n mod 10"
  have "k < 10" by (simp add: k_def)
  then have "k = 0 \<or> k = 1 \<or> k = 2 \<or> k = 3 \<or> k = 4 \<or> k = 5 \<or> k = 6 \<or> k = 7 \<or> k = 8 \<or> k = 9"
    by presburger
  then have "indexOf (''0123456789'' ! k) ''0123456789'' = Some k"
    by (elim disjE) simp_all
  then show ?thesis by (simp only: digit_def k_def)
qed

lemma parseDigits_snoc:
  "parseDigits acc (xs @ [c]) =
     (case parseDigits acc xs of
        None \<Rightarrow> None
      | Some v \<Rightarrow> (case indexOf c ''0123456789'' of None \<Rightarrow> None | Some dv \<Rightarrow> Some (10 * v + dv)))"
  by (induction xs arbitrary: acc) (auto split: option.splits)

lemma showNat_if: "showNat n = (if n < 10 then [digit n] else showNat (n div 10) @ [digit n])"
  by (subst showNat.simps) simp

lemma length_showNat_pos: "0 < length (showNat n)"
  by (subst showNat_if) simp

lemma parseDigits_showNat:
  "parseDigits acc (showNat n) = Some (acc * 10 ^ length (showNat n) + n)"
proof (induction n arbitrary: acc rule: showNat.induct)
  case (1 n)
  show ?case
  proof (cases "n < 10")
    case True
    then show ?thesis
      by (subst (1 2) showNat_if) (simp add: indexOf_digit del: indexOf.simps)
  next
    case False
    have "length (showNat n) = Suc (length (showNat (n div 10)))"
      using False by (subst showNat_if) simp
    moreover have "showNat n = showNat (n div 10) @ [digit n]"
      using False by (subst showNat_if) simp
    ultimately show ?thesis
      using 1 [OF False, of acc]
      by (simp add: parseDigits_snoc indexOf_digit algebra_simps del: indexOf.simps)
  qed
qed

lemma parseDigits_zeros: "parseDigits 0 (replicate k CHR ''0'' @ s) = parseDigits 0 s"
  by (induction k) simp_all

lemma parseDigits_addLeadingZeros: "parseDigits 0 (addLeadingZeros n len) = Some n"
  by (simp add: addLeadingZeros_def parseDigits_zeros parseDigits_showNat)

lemma addLeadingZeros_inj: "addLeadingZeros a len = addLeadingZeros b len' \<Longrightarrow> a = b"
  using parseDigits_addLeadingZeros [of a len] parseDigits_addLeadingZeros [of b len'] by simp

lemma length_showNat_small:
  assumes "n < 100"
  shows "length (showNat n) \<le> 2"
proof (cases "n < 10")
  case True
  then show ?thesis by (subst showNat_if) simp
next
  case False
  from assms have "n div 10 < 10" by simp
  then have "showNat (n div 10) = [digit (n div 10)]" by (subst showNat_if) simp
  with False show ?thesis by (subst showNat_if) simp
qed

lemma length_addLeadingZeros_2: "n < 100 \<Longrightarrow> length (addLeadingZeros n 2) = 2"
  using length_showNat_small [of n] length_showNat_pos [of n]
  by (simp add: addLeadingZeros_def)

lemma dateStr_eq_iff:
  assumes c: "civil t = (y, m, d)" "civil t' = (y', m', d')" and y: "0 < y" "0 < y'"
  shows "dateStr t = dateStr t' \<longleftrightarrow> civil t = civil t'"
proof
  assume "civil t = civil t'"
  then show "dateStr t = dateStr t'" by (simp add: dateStr_def)
next
  assume eq: "dateStr t = dateStr t'"
  from civil_bounds [OF c(1)] civil_bounds [OF c(2)]
  have b: "1 \<le> m" "m \<le> 12" "1 \<le> d" "d \<le> 31" "1 \<le> m'" "m' \<le> 12" "1 \<le> d'" "d' \<le> 31"
    by simp_all
  then have l: "length (addLeadingZeros (nat m) 2) = 2" "length (addLeadingZeros (nat d) 2) = 2"
     "length (addLeadingZeros (nat m') 2) = 2" "length (addLeadingZeros (nat d') 2) = 2"
    by (simp_all add: length_addLeadingZeros_2)
  from eq c y have
    "addLeadingZeros (nat y) 4 @ (''-'' @ addLeadingZeros (nat m) 2 @ ''-'' @ addLeadingZeros (nat d) 2)
      = addLeadingZeros (nat y') 4 @ (''-'' @ addLeadingZeros (nat m') 2 @ ''-'' @ addLeadingZeros (nat d') 2)"
    by (simp add: dateStr_def)
  then have "addLeadingZeros (nat y) 4 = addLeadingZeros (nat y') 4
      \<and> ''-'' @ addLeadingZeros (nat m) 2 @ ''-'' @ addLeadingZeros (nat d) 2
        = ''-'' @ addLeadingZeros (nat m') 2 @ ''-'' @ addLeadingZeros (nat d') 2"
    by (subst (asm) append_eq_append_conv) (simp_all add: l)
  then have "addLeadingZeros (nat y) 4 = addLeadingZeros (nat y') 4"
    and "addLeadingZeros (nat m) 2 @ (''-'' @ addLeadingZeros (nat d) 2)
        = addLeadingZeros (nat m') 2 @ (''-'' @ addLeadingZeros (nat d') 2)"
    by simp_all
  then have "nat y = nat y'" "addLeadingZeros (nat m) 2 = addLeadingZeros (nat m') 2"
    "addLeadingZeros (nat d) 2 = addLeadingZeros (nat d') 2"
    by (auto dest: addLeadingZeros_inj simp: l)
  then have "nat y = nat y'" "nat m = nat m'" "nat d = nat d'"
    by (auto dest: addLeadingZeros_inj)
  with y b have "y = y'" "m = m'" "d = d'" by simp_all
  with c show "civil t = civil t'" by simp
qed

lemma entryKey_eq_iff:
  assumes "commonEra e" "commonEra e'"
  shows "entryKey e = entryKey e' \<longleftrightarrow> calendarDay e = calendarDay e'"
proof -
  from assms obtain t t' where t: "date e = Instant t" "date e' = Instant t'"
    by (cases "date e"; cases "date e'") (auto simp: commonEra_def)
  obtain y m d y' m' d' where c: "civil t = (y, m, d)" "civil t' = (y', m', d')"
    by (cases "civil t"; cases "civil t'") auto
  with assms t have "0 < y" "0 < y'" by (simp_all add: commonEra_def)
  from dateStr_eq_iff [OF c this] show ?thesis
    by (simp add: entryKey_def calendarDay_def t)
qed

lemma dayEntries_calendarDay:
  assumes "list_all commonEra entries" "e \<in> set (filteredEntries entries w)"
  shows "dayEntries entries w e
           = filter (\<lambda>x. calendarDay x = calendarDay e) (filteredEntries entries w)"
proof -
  have sub: "set (filteredEntries entries w) \<subseteq> set entries"
    by (auto simp: filteredEntries_def)
  with assms have e: "commonEra e" by (auto simp: list_all_iff)
  have "entryKey x = entryKey e \<longleftrightarrow> calendarDay x = calendarDay e"
    if "x \<in> set (filteredEntries entries w)" for x
  proof -
    from that sub assms(1) have "commonEra x" by (auto simp: list_all_iff)
    from entryKey_eq_iff [OF this e] show ?thesis .
  qed
  then show ?thesis
    unfolding dayEntries_def sameDay_def by (intro filter_cong refl)
qed

subsection \<open>The daily mean\<close>

lemma levels_sum:
  assumes "list_all (\<lambda>entry. 0 \<le> painLevel entry \<and> painLevel entry \<le> 10) es"
  shows "0 \<le> sum_list (map painLevel es) \<and> sum_list (map painLevel es) \<le> 10 * int (length es)"
  using assms by (induction es) auto

lemma fl64_small:
  assumes "0 \<le> x" "x \<le> 10"
  shows "\<bar>fl64 x\<bar> < 10 ^ 21"
proof (cases "x = 0")
  case True
  then show ?thesis by (simp add: fl64_def)
next
  case False
  with assms have x: "0 < x" by simp
  define d where "d = x / 2 ^ 53"
  have "d \<le> x" using x by (simp add: d_def field_simps)
  moreover have "\<bar>fl64 x - x\<bar> \<le> d" using fl64_error [OF x] by (simp add: d_def)
  ultimately have "\<bar>fl64 x\<bar> \<le> 20" using assms by arith
  then show ?thesis by simp
qed

lemma dayPoint_nearest_tenth:
  assumes lv: "list_all (\<lambda>entry. 0 \<le> painLevel entry \<and> painLevel entry \<le> 10) es"
    and len: "es \<noteq> []" "length es < 2 ^ 32"
  shows "\<exists>n. snd (dayPoint es) = fl64 (of_int n / 10) \<and> \<bar>of_int n / 10 - mean es\<bar> \<le> 1 / 20"
proof -
  define T where "T = sum_list (map painLevel es)"
  define c where "c = int (length es)"
  define q :: rat where "q = of_int T / of_int c"
  have T: "0 \<le> T" "T \<le> 10 * c" using levels_sum [OF lv] by (simp_all add: T_def c_def)
  have c: "0 < c" "c < 2 ^ 32" using len by (simp_all add: c_def)
  have q: "0 \<le> q" "q \<le> 10" using T c by (simp_all add: q_def divide_le_eq)
  have m: "mean es = q" by (simp add: mean_def q_def T_def c_def)
  obtain e rest where es: "es = e # rest" using len(1) by (cases es) auto
  have "snd (dayPoint es) = Number_toFixed1 (fl64 q)"
    by (simp add: dayPoint_def es q_def T_def c_def)
  also have "\<dots> = fl64 (of_int (toFixed1 (fl64 q)) / 10)"
    using fl64_small [OF q] by (rule Number_toFixed1_small)
  finally have "snd (dayPoint es) = fl64 (of_int (toFixed1 (fl64 q)) / 10)" .
  moreover have "\<bar>of_int (toFixed1 (fl64 q)) / 10 - mean es\<bar> \<le> 1 / 20"
    unfolding m q_def using T c by (rule nearest_tenth_of_quotient)
  ultimately show ?thesis by blast
qed

lemma list_all_dayEntries:
  "list_all P entries \<Longrightarrow> list_all P (dayEntries entries w e)"
  by (simp add: dayEntries_def sameDay_def filteredEntries_def list_all_iff)

lemma length_dayEntries: "length (dayEntries entries w e) \<le> length entries"
proof -
  have "length (dayEntries entries w e) \<le> length (filteredEntries entries w)"
    by (simp add: dayEntries_def sameDay_def)
  also have "\<dots> \<le> length entries" by (simp add: filteredEntries_def)
  finally show ?thesis .
qed

lemma dayEntries_nonempty:
  "e \<in> set (filteredEntries entries w) \<Longrightarrow> dayEntries entries w e \<noteq> []"
  by (auto simp: dayEntries_def sameDay_def filter_empty_conv)

text \<open>
  C2. For pain levels from 0 to 10 and fewer than \<open>2^32\<close> entries (an array holds no
  more): the chart has one point for each day with a retained entry, the point of a day
  being the label of its first retained entry's date with the value computed from the
  day's retained entries; that value is the binary64 number written \<open>n / 10\<close> for an
  integer \<open>n\<close> with \<open>n / 10\<close> within 0.05 of the arithmetic mean of the day's pain
  levels, that is, the mean rounded to one decimal place. The entries of a day are those
  with the same \<^verbatim>\<open>yyyy-MM-dd\<close> key; for entries dated in the year 1 or later these are
  the retained entries of the same calendar day. The entries (2024-01-01, 4),
  (2024-01-01, 6), (2024-01-02, 8) with a window over both days give Jan 1 with 5 and
  Jan 2 with 8.
\<close>

theorem chartData_daily_mean:
  "(list_all (\<lambda>entry. 0 \<le> painLevel entry \<and> painLevel entry \<le> 10) entries
      \<and> length entries < 2 ^ 32 \<longrightarrow>
     (\<exists>points. chartData entries w = Inr points
        \<and> length points = card (entryKey ` set (filteredEntries entries w))
        \<and> set points = (\<lambda>e. dayPoint (dayEntries entries w e)) ` set (filteredEntries entries w)
        \<and> (\<forall>e \<in> set (filteredEntries entries w).
              \<exists>n. snd (dayPoint (dayEntries entries w e)) = fl64 (of_int n / 10)
                 \<and> \<bar>of_int n / 10 - mean (dayEntries entries w e)\<bar> \<le> 1 / 20)))
   \<and> (list_all commonEra entries \<longrightarrow>
        (\<forall>e \<in> set (filteredEntries entries w).
           dayEntries entries w e
             = filter (\<lambda>x. calendarDay x = calendarDay e) (filteredEntries entries w)))
   \<and> chartData newYearEntries newYearWindow = Inr [(''Jan 1'', 5), (''Jan 2'', 8)]"
proof (intro conjI impI)
  assume a: "list_all (\<lambda>entry. 0 \<le> painLevel entry \<and> painLevel entry \<le> 10) entries
      \<and> length entries < 2 ^ 32"
  have "\<exists>n. snd (dayPoint (dayEntries entries w e)) = fl64 (of_int n / 10)
                 \<and> \<bar>of_int n / 10 - mean (dayEntries entries w e)\<bar> \<le> 1 / 20"
    if "e \<in> set (filteredEntries entries w)" for e
  proof (rule dayPoint_nearest_tenth)
    show "list_all (\<lambda>entry. 0 \<le> painLevel entry \<and> painLevel entry \<le> 10) (dayEntries entries w e)"
      using a by (simp add: list_all_dayEntries)
    show "dayEntries entries w e \<noteq> []" using that by (rule dayEntries_nonempty)
    show "length (dayEntries entries w e) < 2 ^ 32"
      using a length_dayEntries [of entries w e] by simp
  qed
  with chartData_points [of entries w]
  show "\<exists>points. chartData entries w = Inr points
        \<and> length points = card (entryKey ` set (filteredEntries entries w))
        \<and> set points = (\<lambda>e. dayPoint (dayEntries entries w e)) ` set (filteredEntries entries w)
        \<and> (\<forall>e \<in> set (filteredEntries entries w).
              \<exists>n. snd (dayPoint (dayEntries entries w e)) = fl64 (of_int n / 10)
                 \<and> \<bar>of_int n / 10 - mean (dayEntries entries w e)\<bar> \<le> 1 / 20)"
    by fast
next
  assume "list_all commonEra entries"
  then show "\<forall>e \<in> set (filteredEntries entries w).
           dayEntries entries w e
             = filter (\<lambda>x. calendarDay x = calendarDay e) (filteredEntries entries w)"
    by (intro ballI dayEntries_calendarDay)
next
  show "chartData newYearEntries newYearWindow = Inr [(''Jan 1'', 5), (''Jan 2'', 8)]"
    by code_simp
qed

theorem chartData_daily_mean_witness:
  "list_all (\<lambda>entry. 0 \<le> painLevel entry \<and> painLevel entry \<le> 10) newYearEntries
   \<and> length newYearEntries < 2 ^ 32
   \<and> list_all commonEra newYearEntries
   \<and> chartData newYearEntries newYearWindow = Inr [(''Jan 1'', 5), (''Jan 2'', 8)]
   \<and> card (entryKey ` set (filteredEntries newYearEntries newYearWindow)) = 2
   \<and> calendarDay (entryAt ''e1'' 1704067200000 4) = Some (2024, 1, 1)
   \<and> dayEntries newYearEntries newYearWindow (entryAt ''e1'' 1704067200000 4)
       = filter (\<lambda>x. calendarDay x = Some (2024, 1, 1))
           (filteredEntries newYearEntries newYearWindow)
   \<and> mean (dayEntries newYearEntries newYearWindow (entryAt ''e1'' 1704067200000 4)) = 5
   \<and> dayPoint (dayEntries newYearEntries newYearWindow (entryAt ''e1'' 1704067200000 4))
       = (''Jan 1'', 5)"
proof -
  have h: "list_all (\<lambda>entry. 0 \<le> painLevel entry \<and> painLevel entry \<le> 10) newYearEntries
             \<and> length newYearEntries < 2 ^ 32"
    by (simp add: newYearEntries_def entryAt_def)
  have ce: "list_all commonEra newYearEntries" by code_simp
  have e1: "entryAt ''e1'' 1704067200000 4 \<in> set (filteredEntries newYearEntries newYearWindow)"
    by (simp add: filteredEntries_inWindow inWindow_def newYearEntries_def newYearWindow_def
          entryAt_def)
  have cd: "calendarDay (entryAt ''e1'' 1704067200000 4) = Some (2024, 1, 1)" by code_simp
  note inst = chartData_daily_mean [of newYearEntries newYearWindow]
  from inst h
  obtain points where p: "chartData newYearEntries newYearWindow = Inr points"
      "length points = card (entryKey ` set (filteredEntries newYearEntries newYearWindow))"
      "chartData newYearEntries newYearWindow = Inr [(''Jan 1'', 5), (''Jan 2'', 8)]"
    by blast
  from p(1,3) have "points = [(''Jan 1'', 5), (''Jan 2'', 8)]" by simp
  with p(2) have c: "card (entryKey ` set (filteredEntries newYearEntries newYearWindow)) = 2"
    by simp
  from inst ce e1 have
    "dayEntries newYearEntries newYearWindow (entryAt ''e1'' 1704067200000 4)
       = filter (\<lambda>x. calendarDay x = calendarDay (entryAt ''e1'' 1704067200000 4))
           (filteredEntries newYearEntries newYearWindow)"
    by blast
  then have de: "dayEntries newYearEntries newYearWindow (entryAt ''e1'' 1704067200000 4)
       = filter (\<lambda>x. calendarDay x = Some (2024, 1, 1))
           (filteredEntries newYearEntries newYearWindow)"
    by (simp only: cd)
  have m: "mean (dayEntries newYearEntries newYearWindow (entryAt ''e1'' 1704067200000 4)) = 5"
    by code_simp
  have d: "dayPoint (dayEntries newYearEntries newYearWindow (entryAt ''e1'' 1704067200000 4))
       = (''Jan 1'', 5)"
    by code_simp
  from h ce p(3) c cd de m d show ?thesis by (intro conjI) simp_all
qed

subsection \<open>Empty results\<close>

lemma chartData_Nil: "chartData [] w = Inr []"
  by (simp add: chartData_def filteredEntries_def sortBy_def)

lemma chartData_filtered_Nil: "filteredEntries entries w = [] \<Longrightarrow> chartData entries w = Inr []"
  by (simp add: chartData_def sortBy_def)

text \<open>
  C7. A window whose lower bound is later than its upper bound gives the empty chart,
  and so does the empty collection with any window; the computation never raises
  an error.
\<close>

theorem chartData_empty:
  "(range_from w = Instant f \<and> range_to w = Instant t \<and> f > t \<longrightarrow> chartData entries w = Inr [])
   \<and> chartData [] w = Inr []
   \<and> (\<exists>points. chartData entries w = Inr points)"
proof (intro conjI impI)
  assume a: "range_from w = Instant f \<and> range_to w = Instant t \<and> f > t"
  then have "\<not> inWindow w e" for e
    by (auto simp: inWindow_def split: jsdate.splits)
  then have "filteredEntries entries w = []"
    by (simp add: filteredEntries_inWindow)
  then show "chartData entries w = Inr []" by (rule chartData_filtered_Nil)
next
  show "chartData [] w = Inr []" by (rule chartData_Nil)
next
  from chartData_points [of entries w] show "\<exists>points. chartData entries w = Inr points"
    by blast
qed

theorem chartData_empty_witness:
  "range_from \<lparr>range_from = Instant 1706745600000, range_to = Instant 1704067200000\<rparr>
      = Instant 1706745600000
   \<and> range_to \<lparr>range_from = Instant 1706745600000, range_to = Instant 1704067200000\<rparr>
      = Instant 1704067200000
   \<and> (1706745600000 :: int) > 1704067200000
   \<and> dateStr 1706745600000 = ''2024-02-01'' \<and> dateStr 1704067200000 = ''2024-01-01''
   \<and> chartData newYearEntries
        \<lparr>range_from = Instant 1706745600000, range_to = Instant 1704067200000\<rparr> = Inr []"
proof -
  have "dateStr 1706745600000 = ''2024-02-01''" "dateStr 1704067200000 = ''2024-01-01''"
    by code_simp+
  then show ?thesis
    using chartData_empty [of "\<lparr>range_from = Instant 1706745600000, range_to = Instant 1704067200000\<rparr>"
          1706745600000 1704067200000 newYearEntries]
    by simp
qed

subsection \<open>The window\<close>

lemma chartData_depends_on_filtered:
  assumes "filter (inWindow w) entries = filter (inWindow w) entries'"
  shows "chartData entries w = chartData entries' w"
  using assms by (simp add: chartData_def filteredEntries_inWindow)

lemma dailyData_window:
  "\<exists>daily. dailyData [] (filteredEntries entries w) = Inr daily
      \<and> distinct (map fst daily)
      \<and> set (map fst daily) = entryKey ` set (filter (inWindow w) entries)
      \<and> (\<forall>k. map_of daily k = bucketOf None (sameDay k (filter (inWindow w) entries)))"
proof -
  have v: "validDates (filter (inWindow w) entries)"
    using validDates_filteredEntries [of entries w] by (simp only: filteredEntries_inWindow)
  from dailyData_buckets [OF v, of "[]"] obtain daily where
    d: "dailyData [] (filter (inWindow w) entries) = Inr daily" "distinct (map fst daily)"
       "\<And>k. map_of daily k = bucketOf None (sameDay k (filter (inWindow w) entries))" by auto
  from dailyData_days [OF v] obtain daily' where
    d': "dailyData [] (filter (inWindow w) entries) = Inr daily'"
        "set (map fst daily') = entryKey ` set (filter (inWindow w) entries)" by blast
  from d(1) d'(1) have "daily' = daily" by simp
  with d d'(2) show ?thesis
    unfolding filteredEntries_inWindow by (intro exI [of _ daily] conjI allI) simp_all
qed

lemma bucketOf_None_Some:
  assumes "es \<noteq> []"
  shows "\<exists>b. bucketOf None es = Some b \<and> count b = length es
           \<and> totalPain b = sum_list (map painLevel es) \<and> bucket_date b = date (hd es)"
  using assms by (cases es) (simp_all add: bucketOf_def)

text \<open>
  C3, as the code has it. The retained entries are those of the collection whose instant
  lies between the two bounds as instants, both included, and exactly these contribute:
  the chart depends on them only (two collections with the same entries inside the
  window have the same chart); the buckets are, key for key, those of the entries inside
  the window, so that the bucket of a day counts and sums exactly the entries of that day
  that are inside the window; the chart has exactly one point for each day with an entry
  inside the window; and every entry inside the window is counted in the bucket of its
  day, whose point is in the chart.
\<close>

theorem filteredEntries_window:
  "(e \<in> set (filteredEntries entries w) \<longleftrightarrow> e \<in> set entries \<and> inWindow w e)
   \<and> (inWindow w e \<longleftrightarrow>
        (\<exists>f t u. range_from w = Instant f \<and> date e = Instant t \<and> range_to w = Instant u
            \<and> f \<le> t \<and> t \<le> u))
   \<and> (filter (inWindow w) entries = filter (inWindow w) entries'
        \<longrightarrow> chartData entries w = chartData entries' w)
   \<and> (e \<in> set (sameDay k (filter (inWindow w) entries))
        \<longleftrightarrow> e \<in> set entries \<and> inWindow w e \<and> entryKey e = k)
   \<and> (\<exists>daily. dailyData [] (filteredEntries entries w) = Inr daily
        \<and> distinct (map fst daily)
        \<and> set (map fst daily) = entryKey ` set (filter (inWindow w) entries)
        \<and> (\<forall>k. map_of daily k = bucketOf None (sameDay k (filter (inWindow w) entries)))
        \<and> (\<forall>(k, b) \<in> set daily.
              bucketOf None (sameDay k (filter (inWindow w) entries)) = Some b))
   \<and> (\<exists>points. chartData entries w = Inr points
        \<and> length points = card (entryKey ` set (filter (inWindow w) entries))
        \<and> set points
             = (\<lambda>x. dayPoint (sameDay (entryKey x) (filter (inWindow w) entries)))
                 ` set (filter (inWindow w) entries))
   \<and> (e \<in> set entries \<and> inWindow w e \<longrightarrow>
        (\<exists>daily b points.
           dailyData [] (filteredEntries entries w) = Inr daily
           \<and> map_of daily (entryKey e) = Some b
           \<and> e \<in> set (sameDay (entryKey e) (filter (inWindow w) entries))
           \<and> count b = length (sameDay (entryKey e) (filter (inWindow w) entries))
           \<and> totalPain b
               = sum_list (map painLevel (sameDay (entryKey e) (filter (inWindow w) entries)))
           \<and> chartData entries w = Inr points
           \<and> dayPoint (sameDay (entryKey e) (filter (inWindow w) entries)) \<in> set points))"
proof (intro conjI impI)
  show "e \<in> set (filteredEntries entries w) \<longleftrightarrow> e \<in> set entries \<and> inWindow w e"
    by (simp add: filteredEntries_inWindow)
  show "inWindow w e \<longleftrightarrow>
        (\<exists>f t u. range_from w = Instant f \<and> date e = Instant t \<and> range_to w = Instant u
            \<and> f \<le> t \<and> t \<le> u)"
    by (auto simp: inWindow_def split: jsdate.splits)
  show "chartData entries w = chartData entries' w"
    if "filter (inWindow w) entries = filter (inWindow w) entries'"
    using that by (rule chartData_depends_on_filtered)
  show "e \<in> set (sameDay k (filter (inWindow w) entries))
        \<longleftrightarrow> e \<in> set entries \<and> inWindow w e \<and> entryKey e = k"
    by (auto simp: sameDay_def)
  from dailyData_window [of entries w] obtain daily where
    d: "dailyData [] (filteredEntries entries w) = Inr daily" "distinct (map fst daily)"
       "set (map fst daily) = entryKey ` set (filter (inWindow w) entries)"
       "\<And>k. map_of daily k = bucketOf None (sameDay k (filter (inWindow w) entries))"
    by blast
  have "bucketOf None (sameDay k (filter (inWindow w) entries)) = Some b"
    if "(k, b) \<in> set daily" for k b
    using map_of_is_SomeI [OF d(2) that] by (simp add: d(4))
  then have "\<forall>(k, b) \<in> set daily.
              bucketOf None (sameDay k (filter (inWindow w) entries)) = Some b" by auto
  with d show "\<exists>daily. dailyData [] (filteredEntries entries w) = Inr daily
        \<and> distinct (map fst daily)
        \<and> set (map fst daily) = entryKey ` set (filter (inWindow w) entries)
        \<and> (\<forall>k. map_of daily k = bucketOf None (sameDay k (filter (inWindow w) entries)))
        \<and> (\<forall>(k, b) \<in> set daily.
              bucketOf None (sameDay k (filter (inWindow w) entries)) = Some b)"
    by (intro exI [of _ daily] conjI allI)
  from chartData_points [of entries w] obtain points where
    p: "chartData entries w = Inr points"
       "length points = card (entryKey ` set (filter (inWindow w) entries))"
       "set points
          = (\<lambda>x. dayPoint (sameDay (entryKey x) (filter (inWindow w) entries)))
              ` set (filter (inWindow w) entries)"
    unfolding dayEntries_def filteredEntries_inWindow by blast
  then show "\<exists>points. chartData entries w = Inr points
        \<and> length points = card (entryKey ` set (filter (inWindow w) entries))
        \<and> set points
             = (\<lambda>x. dayPoint (sameDay (entryKey x) (filter (inWindow w) entries)))
                 ` set (filter (inWindow w) entries)"
    by (intro exI [of _ points] conjI)
  show "\<exists>daily b points.
           dailyData [] (filteredEntries entries w) = Inr daily
           \<and> map_of daily (entryKey e) = Some b
           \<and> e \<in> set (sameDay (entryKey e) (filter (inWindow w) entries))
           \<and> count b = length (sameDay (entryKey e) (filter (inWindow w) entries))
           \<and> totalPain b
               = sum_list (map painLevel (sameDay (entryKey e) (filter (inWindow w) entries)))
           \<and> chartData entries w = Inr points
           \<and> dayPoint (sameDay (entryKey e) (filter (inWindow w) entries)) \<in> set points"
    if a: "e \<in> set entries \<and> inWindow w e"
  proof -
    let ?day = "sameDay (entryKey e) (filter (inWindow w) entries)"
    from a have m: "e \<in> set ?day" by (simp add: sameDay_def)
    then have "?day \<noteq> []" by auto
    from bucketOf_None_Some [OF this] obtain b where
      b: "bucketOf None ?day = Some b" "count b = length ?day"
         "totalPain b = sum_list (map painLevel ?day)" by blast
    from a have "e \<in> set (filter (inWindow w) entries)" by simp
    then have "dayPoint ?day \<in> set points" unfolding p(3) by (rule imageI)
    with d(1) d(4) [of "entryKey e"] b m p(1) show ?thesis
      by (intro exI [of _ daily] exI [of _ b] exI [of _ points] conjI) simp_all
  qed
qed


theorem filteredEntries_window_witness:
  "inWindow firstDayWindow (entryAt ''e1'' 1704067200000 4)
   \<and> \<not> inWindow firstDayWindow (entryAt ''e3'' 1704153600000 8)
   \<and> entryAt ''e3'' 1704153600000 8 \<notin> set (filteredEntries newYearEntries firstDayWindow)
   \<and> entryAt ''e1'' 1704067200000 4 \<in> set (filteredEntries newYearEntries firstDayWindow)
   \<and> filter (inWindow firstDayWindow) newYearEntries
       = filter (inWindow firstDayWindow) (take 2 newYearEntries)
   \<and> chartData newYearEntries firstDayWindow = chartData (take 2 newYearEntries) firstDayWindow
   \<and> chartData newYearEntries firstDayWindow = Inr [(''Jan 1'', 5)]
   \<and> entryAt ''e3'' 1704153600000 8 \<in> set newYearEntries
   \<and> inWindow newYearWindow (entryAt ''e3'' 1704153600000 8)
   \<and> dailyData [] (filteredEntries newYearEntries newYearWindow)
       = Inr [(''2024-01-01'', \<lparr>bucket_date = Instant 1704067200000, totalPain = 10, count = 2\<rparr>),
              (''2024-01-02'', \<lparr>bucket_date = Instant 1704153600000, totalPain = 8, count = 1\<rparr>)]
   \<and> map_of [(''2024-01-01'', \<lparr>bucket_date = Instant 1704067200000, totalPain = 10, count = 2\<rparr>),
              (''2024-01-02'', \<lparr>bucket_date = Instant 1704153600000, totalPain = 8, count = 1\<rparr>)]
         (entryKey (entryAt ''e3'' 1704153600000 8))
       = Some \<lparr>bucket_date = Instant 1704153600000, totalPain = 8, count = 1\<rparr>
   \<and> sameDay (entryKey (entryAt ''e3'' 1704153600000 8)) (filter (inWindow newYearWindow) newYearEntries)
       = [entryAt ''e3'' 1704153600000 8]
   \<and> dayPoint [entryAt ''e3'' 1704153600000 8] = (''Jan 2'', 8)
   \<and> (''Jan 2'', 8) \<in> set [(''Jan 1'', 5), (''Jan 2'', 8 :: rat)]
   \<and> chartData newYearEntries newYearWindow = Inr [(''Jan 1'', 5), (''Jan 2'', 8)]"
proof -
  have i1: "inWindow firstDayWindow (entryAt ''e1'' 1704067200000 4)"
    and i3: "\<not> inWindow firstDayWindow (entryAt ''e3'' 1704153600000 8)"
    by (simp_all add: inWindow_def firstDayWindow_def entryAt_def)
  have f: "filter (inWindow firstDayWindow) newYearEntries
       = filter (inWindow firstDayWindow) (take 2 newYearEntries)"
    by (simp add: newYearEntries_def inWindow_def firstDayWindow_def entryAt_def)
  have c: "chartData newYearEntries firstDayWindow = Inr [(''Jan 1'', 5)]"
    by code_simp
  have m: "entryAt ''e1'' 1704067200000 4 \<in> set newYearEntries"
    and m3: "entryAt ''e3'' 1704153600000 8 \<in> set newYearEntries"
    by (simp_all add: newYearEntries_def)
  have w3: "inWindow newYearWindow (entryAt ''e3'' 1704153600000 8)"
    by (simp add: inWindow_def newYearWindow_def entryAt_def)
  have dd: "dailyData [] (filteredEntries newYearEntries newYearWindow)
       = Inr [(''2024-01-01'', \<lparr>bucket_date = Instant 1704067200000, totalPain = 10, count = 2\<rparr>),
              (''2024-01-02'', \<lparr>bucket_date = Instant 1704153600000, totalPain = 8, count = 1\<rparr>)]"
    by code_simp
  have k3: "entryKey (entryAt ''e3'' 1704153600000 8) = ''2024-01-02''" by code_simp
  have sd: "sameDay (entryKey (entryAt ''e3'' 1704153600000 8))
              (filter (inWindow newYearWindow) newYearEntries)
            = [entryAt ''e3'' 1704153600000 8]"
    by code_simp
  have cd: "chartData newYearEntries newYearWindow = Inr [(''Jan 1'', 5), (''Jan 2'', 8)]"
    by code_simp
  have dp: "dayPoint [entryAt ''e3'' 1704153600000 8] = (''Jan 2'', 8)" by code_simp
  note in3 = filteredEntries_window [of "entryAt ''e3'' 1704153600000 8" newYearEntries
      newYearWindow, THEN conjunct2, THEN conjunct2, THEN conjunct2, THEN conjunct2,
      THEN conjunct2, THEN conjunct2, THEN mp, OF conjI [OF m3 w3]]
  from in3 obtain daily b points where
    r: "dailyData [] (filteredEntries newYearEntries newYearWindow) = Inr daily"
       "map_of daily (entryKey (entryAt ''e3'' 1704153600000 8)) = Some b"
       "chartData newYearEntries newYearWindow = Inr points"
       "dayPoint (sameDay (entryKey (entryAt ''e3'' 1704153600000 8))
                    (filter (inWindow newYearWindow) newYearEntries)) \<in> set points"
    by (elim exE conjE)
  from r(3) cd have points: "points = [(''Jan 1'', 5), (''Jan 2'', 8)]" by simp
  have mo: "map_of [(''2024-01-01'', \<lparr>bucket_date = Instant 1704067200000, totalPain = 10, count = 2\<rparr>),
              (''2024-01-02'', \<lparr>bucket_date = Instant 1704153600000, totalPain = 8, count = 1\<rparr>)]
         (entryKey (entryAt ''e3'' 1704153600000 8))
       = Some \<lparr>bucket_date = Instant 1704153600000, totalPain = 8, count = 1\<rparr>"
    by (simp add: k3)
  have mem: "(''Jan 2'', 8) \<in> set [(''Jan 1'', 5), (''Jan 2'', 8 :: rat)]"
    using r(4) by (simp only: sd dp points)
  note out3 = filteredEntries_window [of "entryAt ''e3'' 1704153600000 8" newYearEntries
      firstDayWindow, THEN conjunct1]
  note in1 = filteredEntries_window [of "entryAt ''e1'' 1704067200000 4" newYearEntries
      firstDayWindow, THEN conjunct1]
  note same = filteredEntries_window [of _ newYearEntries firstDayWindow
      "take 2 newYearEntries", THEN conjunct2, THEN conjunct2, THEN conjunct1, THEN mp, OF f]
  have n3: "entryAt ''e3'' 1704153600000 8 \<notin> set (filteredEntries newYearEntries firstDayWindow)"
    using out3 i3 by simp
  have y1: "entryAt ''e1'' 1704067200000 4 \<in> set (filteredEntries newYearEntries firstDayWindow)"
    using in1 i1 m by simp
  show ?thesis
    by (intro conjI) (fact i1 i3 n3 y1 f same c m3 w3 dd mo sd dp mem cd)+
qed

text \<open>
  With the window from 2024-01-01 00:00 to 2024-01-02 00:00, an entry at 10:00 on
  2024-01-02 falls on the window's last calendar day and is left out of the chart.
\<close>

theorem window_excludes_later_on_last_day:
  "dateStr 1704189600000 = ''2024-01-02''
   \<and> dateStr 1704067200000 = ''2024-01-01''
   \<and> dateStr 1704153600000 = ''2024-01-02''
   \<and> chartData [entryAt ''e1'' 1704189600000 7] newYearWindow = Inr []"
  by code_simp

subsection \<open>The order of the chart points\<close>

text \<open>
  C1. The points are sorted after their dates were turned into labels without a year.
  An entry on 2023-12-31 and one on 2024-01-01, both inside the window, come out with the
  later day first.
\<close>

theorem chartData_across_new_year:
  "dateStr 1703980800000 = ''2023-12-31''
   \<and> dateStr 1704067200000 = ''2024-01-01''
   \<and> chartData [entryAt ''e1'' 1703980800000 5, entryAt ''e2'' 1704067200000 3]
        \<lparr>range_from = Instant 1703980800000, range_to = Instant 1704067200000\<rparr>
      = Inr [(''Jan 1'', 3), (''Dec 31'', 5)]"
  by code_simp

end
